theory Spec2Isabelle
  imports Complex_Main "HOL-Library.Product_Lexorder"
begin

section \<open>Data model\<close>

text \<open>
  The reasoning nodes, the action catalogue and the node types come from
  \<^verbatim>\<open>alphasql/algorithm/mcts\<close>; the selector and the solver only read a few of their
  attributes. An action object carries no state the code below reads, so an action is
  modelled by its class. The constructors are listed in the order of the dictionary of
  \<^verbatim>\<open>LLMActionSelector.get_action_description\<close>.
\<close>

datatype MCTSAction =
    RaphraseQuestionAction
  | SchemaSelectionAction
  | IdentifyColumnValuesAction
  | IdentifyColumnFunctionsAction
  | SQLGenerationAction
  | SQLRevisionAction
  | EndAction

datatype MCTSNodeType =
    ROOT
  | REPHRASE_QUESTION
  | SCHEMA_SELECTION
  | IDENTIFY_COLUMN_VALUES
  | IDENTIFY_COLUMN_FUNCTIONS
  | SQL_GENERATION
  | SQL_REVISION
  | END

text \<open>
  A node. \<open>path_parent_actions\<close> is the list \<^verbatim>\<open>[pn.parent_action for pn in node.path_nodes]\<close>
  (root first, \<open>None\<close> for the root, which no action produced); the attribute
  \<^verbatim>\<open>children\<close>, which the solver clears and never reads, is left out.
\<close>

record MCTSNode =
  node_type :: MCTSNodeType
  depth :: int
  db_id :: string
  final_sql_query :: string
  path_parent_actions :: "MCTSAction option list"

text \<open>Python exceptions that the modelled code can raise.\<close>

datatype error =
    IndexError
  | StopIteration
  | ValueError
  | TypeError
  | AttributeError
  | JSONDecodeError
  | ZeroDivisionError
  | ExternalError

text \<open>
  Modelled from the spec: \<^verbatim>\<open>MCTSNode.is_terminal\<close> is defined in
  \<^verbatim>\<open>alphasql/algorithm/mcts/mcts_node.py\<close>, which is not among the sources; the
  specification says that a path is terminal iff its last node's type is End.
\<close>

definition is_terminal :: "MCTSNode \<Rightarrow> bool" where
  "is_terminal n = (node_type n = END)"

section \<open>Action selection (\<^verbatim>\<open>llm_action_selector.py\<close>)\<close>

text \<open>\<^verbatim>\<open>next(a for a in xs if p(a))\<close>: the first match, or \<^verbatim>\<open>StopIteration\<close>.\<close>

definition py_next :: "('a \<Rightarrow> bool) \<Rightarrow> 'a list \<Rightarrow> error + 'a" where
  "py_next p xs = (case find p xs of None \<Rightarrow> Inl StopIteration | Some a \<Rightarrow> Inr a)"

text \<open>\<^verbatim>\<open>xs[0]\<close>.\<close>

definition py_first :: "'a list \<Rightarrow> error + 'a" where
  "py_first xs = (case xs of [] \<Rightarrow> Inl IndexError | x # _ \<Rightarrow> Inr x)"

definition has_sql_generation :: "MCTSNode \<Rightarrow> bool" where
  "has_sql_generation node =
     list_ex (\<lambda>pa. pa = Some SQLGenerationAction) (path_parent_actions node)"

definition has_schema_selection :: "MCTSNode \<Rightarrow> bool" where
  "has_schema_selection node =
     list_ex (\<lambda>pa. pa = Some SchemaSelectionAction) (path_parent_actions node)"

text \<open>\<^verbatim>\<open>LLMActionSelector._default_action_selection\<close>, lines 177-200.\<close>

definition default_action_selection :: "MCTSNode \<Rightarrow> MCTSAction list \<Rightarrow> error + MCTSAction" where
  "default_action_selection node valid_actions =
     (let action_classes = valid_actions in
      if EndAction \<in> set action_classes \<and> has_sql_generation node
        then py_next (\<lambda>a. a = EndAction) valid_actions
      else if SQLGenerationAction \<in> set action_classes \<and> has_schema_selection node
        then py_next (\<lambda>a. a = SQLGenerationAction) valid_actions
      else if SchemaSelectionAction \<in> set action_classes \<and> \<not> has_schema_selection node
        then py_next (\<lambda>a. a = SchemaSelectionAction) valid_actions
      else py_first valid_actions)"

text \<open>
  The catalogue order of the action kinds: the order in which
  \<^verbatim>\<open>get_action_description\<close> lists them (and the specification enumerates them).
\<close>

definition catalogue :: "MCTSAction list" where
  "catalogue =
     [RaphraseQuestionAction, SchemaSelectionAction, IdentifyColumnValuesAction,
      IdentifyColumnFunctionsAction, SQLGenerationAction, SQLRevisionAction, EndAction]"

text \<open>The first action of the catalogue, in its order, that is among the legal ones.\<close>

definition first_legal_in_catalogue_order :: "MCTSAction list \<Rightarrow> MCTSAction option" where
  "first_legal_in_catalogue_order valid_actions = find (\<lambda>a. a \<in> set valid_actions) catalogue"

text \<open>The position of an action in the catalogue.\<close>

fun catalogue_rank :: "MCTSAction \<Rightarrow> nat" where
  "catalogue_rank RaphraseQuestionAction = 0"
| "catalogue_rank SchemaSelectionAction = 1"
| "catalogue_rank IdentifyColumnValuesAction = 2"
| "catalogue_rank IdentifyColumnFunctionsAction = 3"
| "catalogue_rank SQLGenerationAction = 4"
| "catalogue_rank SQLRevisionAction = 5"
| "catalogue_rank EndAction = 6"

text \<open>
  The value that \<^verbatim>\<open>json.loads\<close> returns. An object is the list of the items of the
  resulting dictionary (its keys are distinct).
\<close>

datatype json =
    JNull
  | JBool bool
  | JInt int
  | JFloat real
  | JStr string
  | JArr "json list"
  | JObj "(string \<times> json) list"

text \<open>
  What one invocation of the model yields, seen through the two library calls that the
  selector applies to it: \<^verbatim>\<open>call_openai\<close> raises; or the response has no match of the
  pattern \<^verbatim>\<open>```json\n(.*?)```\<close>; or the matched text is not JSON (\<^verbatim>\<open>json.loads\<close> raises);
  or it parses to a JSON value.
\<close>

datatype llm_outcome =
    CallRaises
  | NoJsonBlock
  | MalformedJson
  | ParsedJson json

text \<open>The entries of \<^verbatim>\<open>llm_kwargs\<close> that the selector reads to decide its control flow.\<close>

record llm_kwargs =
  model :: "string option"

text \<open>A Python number: the result of \<^verbatim>\<open>result.get("selected_action_number", 1) - 1\<close>.\<close>

datatype py_number = PyInt int | PyFloat real

text \<open>\<^verbatim>\<open>result.get(key, default)\<close>: only a dictionary has the method.\<close>

definition json_get :: "json \<Rightarrow> string \<Rightarrow> json \<Rightarrow> error + json" where
  "json_get result key dflt =
     (case result of
        JObj items \<Rightarrow> (case map_of items key of None \<Rightarrow> Inr dflt | Some v \<Rightarrow> Inr v)
      | _ \<Rightarrow> Inl AttributeError)"

text \<open>\<^verbatim>\<open>v - 1\<close>: defined on numbers (a boolean is the integer 0 or 1).\<close>

definition minus_one :: "json \<Rightarrow> error + py_number" where
  "minus_one v =
     (case v of
        JInt k \<Rightarrow> Inr (PyInt (k - 1))
      | JBool b \<Rightarrow> Inr (PyInt ((if b then 1 else 0) - 1))
      | JFloat x \<Rightarrow> Inr (PyFloat (x - 1))
      | _ \<Rightarrow> Inl TypeError)"

text \<open>
  The body of the \<^verbatim>\<open>try\<close> block of \<^verbatim>\<open>select_action\<close>, lines 81-110. A float index that
  passes the range test raises \<^verbatim>\<open>TypeError\<close> when it subscripts the list.
\<close>

definition select_action_try ::
  "llm_kwargs \<Rightarrow> llm_outcome \<Rightarrow> MCTSNode \<Rightarrow> MCTSAction list \<Rightarrow> error + MCTSAction" where
  "select_action_try kwargs outcome node valid_actions =
     (if model kwargs = None \<or> model kwargs = Some [] then Inl ValueError
      else case outcome of
        CallRaises \<Rightarrow> Inl ExternalError
      | NoJsonBlock \<Rightarrow> default_action_selection node valid_actions
      | MalformedJson \<Rightarrow> Inl JSONDecodeError
      | ParsedJson result \<Rightarrow>
          (case json_get result ''selected_action_number'' (JInt 1) of
             Inl e \<Rightarrow> Inl e
           | Inr v \<Rightarrow>
               (case minus_one v of
                  Inl e \<Rightarrow> Inl e
                | Inr (PyInt selected_idx) \<Rightarrow>
                    (case json_get result ''reasoning'' (JStr []) of
                       Inl e \<Rightarrow> Inl e
                     | Inr reasoning \<Rightarrow>
                         if 0 \<le> selected_idx \<and> selected_idx < int (length valid_actions)
                           then Inr (valid_actions ! nat selected_idx)
                         else default_action_selection node valid_actions)
                | Inr (PyFloat x) \<Rightarrow>
                    (case json_get result ''reasoning'' (JStr []) of
                       Inl e \<Rightarrow> Inl e
                     | Inr reasoning \<Rightarrow>
                         if 0 \<le> x \<and> x < real (length valid_actions)
                           then Inl TypeError
                         else default_action_selection node valid_actions))))"

text \<open>
  \<^verbatim>\<open>LLMActionSelector.select_action\<close>, lines 34-114: \<^verbatim>\<open>except Exception\<close> turns every
  error of the block into a call of the heuristic. Building the context and the prompt
  (before the \<^verbatim>\<open>try\<close>) only formats attributes of the node and consults the SQL
  execution oracle, which reports a failed query as a value; their text reaches nothing
  but the model call, whose outcome is the argument \<open>outcome\<close>.
\<close>

definition select_action ::
  "llm_kwargs \<Rightarrow> llm_outcome \<Rightarrow> MCTSNode \<Rightarrow> MCTSAction list \<Rightarrow> error + MCTSAction" where
  "select_action kwargs outcome node valid_actions =
     (case select_action_try kwargs outcome node valid_actions of
        Inl e \<Rightarrow> default_action_selection node valid_actions
      | Inr a \<Rightarrow> Inr a)"

section \<open>Path generation (\<^verbatim>\<open>llm_guided_solver.py\<close>)\<close>

text \<open>The configuration of an \<^verbatim>\<open>LLMGuidedSolver\<close> that its control flow reads.\<close>

record solver =
  max_steps :: int
  max_depth :: int
  num_paths :: int
  solver_llm_kwargs :: llm_kwargs

text \<open>
  Where the solver applies an action: in the loop at a given step count, or after the
  loop (the forced closure).
\<close>

datatype call_site = LoopStep nat | ForcedClosure

text \<open>
  The collaborators of one call of \<^verbatim>\<open>generate_one_path\<close>, none of which is among the
  sources: the catalogue's legality function, the outcome of the model call made by the
  selector at each step, and \<^verbatim>\<open>create_children_nodes\<close>, whose result may differ from
  call to call (it consults a model) and which may raise.
\<close>

record path_env =
  get_valid_action_space_for_node :: "MCTSNode \<Rightarrow> MCTSAction list"
  llm_outcome_at :: "nat \<Rightarrow> llm_outcome"
  create_children_nodes :: "call_site \<Rightarrow> MCTSAction \<Rightarrow> MCTSNode \<Rightarrow> error + MCTSNode list"

text \<open>
  The \<^verbatim>\<open>while\<close> loop of \<^verbatim>\<open>generate_one_path\<close>, lines 58-84, on the state
  \<open>(current, path, step)\<close>; \<open>Inl\<close> when a collaborator raises.
\<close>

function path_loop ::
  "solver \<Rightarrow> path_env \<Rightarrow> MCTSNode \<Rightarrow> MCTSNode list \<Rightarrow> nat
     \<Rightarrow> error + (MCTSNode \<times> MCTSNode list \<times> nat)" where
  "path_loop S E current path step =
     (if \<not> is_terminal current \<and> int step < max_steps S \<and> depth current < max_depth S then
        (let valid_action_space = get_valid_action_space_for_node E current in
         if valid_action_space = [] then Inr (current, path, step)
         else
           (case select_action (solver_llm_kwargs S) (llm_outcome_at E step) current
                   valid_action_space of
              Inl e \<Rightarrow> Inl e
            | Inr selected_action \<Rightarrow>
                (case create_children_nodes E (LoopStep step) selected_action current of
                   Inl e \<Rightarrow> Inl e
                 | Inr [] \<Rightarrow> Inr (current, path, step)
                 | Inr (child # _) \<Rightarrow> path_loop S E child (path @ [child]) (step + 1))))
      else Inr (current, path, step))"
  by pat_completeness auto
termination
  by (relation "measure (\<lambda>(S, E, current, path, step). nat (max_steps S) - step)") auto

declare path_loop.simps [simp del]

text \<open>The forced closure, lines 87-93.\<close>

definition force_end ::
  "path_env \<Rightarrow> MCTSNode \<Rightarrow> MCTSNode list \<Rightarrow> error + MCTSNode list" where
  "force_end E current path =
     (if \<not> is_terminal current then
        (if node_type current \<in> set [SQL_GENERATION, SQL_REVISION] then
           (case create_children_nodes E ForcedClosure EndAction current of
              Inl e \<Rightarrow> Inl e
            | Inr [] \<Rightarrow> Inr path
            | Inr (end_node # _) \<Rightarrow> Inr (path @ [end_node]))
         else Inr path)
      else Inr path)"

text \<open>\<^verbatim>\<open>LLMGuidedSolver.generate_one_path\<close>, lines 51-95.\<close>

definition generate_one_path :: "solver \<Rightarrow> path_env \<Rightarrow> MCTSNode \<Rightarrow> error + MCTSNode list" where
  "generate_one_path S E root_node =
     (case path_loop S E root_node [root_node] 0 of
        Inl e \<Rightarrow> Inl e
      | Inr (current, path, step) \<Rightarrow> force_end E current path)"

text \<open>
  Modelled from the spec: \<^verbatim>\<open>EndAction.create_children_nodes\<close> is defined in
  \<^verbatim>\<open>alphasql/algorithm/mcts/mcts_action.py\<close>, which is not among the sources. The
  specification says that a node's type mirrors the action that produced it, that each
  child's depth is its parent's depth plus one, and that End carries the last emitted
  SQL forward. An environment meets the contract when every child that applying End
  yields is such a node.
\<close>

definition end_action_contract :: "path_env \<Rightarrow> bool" where
  "end_action_contract E =
     (\<forall>site n children. create_children_nodes E site EndAction n = Inr children \<longrightarrow>
        list_all (\<lambda>c. node_type c = END \<and> depth c = depth n + 1
                       \<and> final_sql_query c = final_sql_query n) children)"

text \<open>The attributes of a task that the solver and the runner read.\<close>

record Task =
  question_id :: int
  task_db_id :: string

text \<open>
  The collaborators of one call of \<^verbatim>\<open>solve\<close>: building the schema context (an external
  function, which may raise) and the environment of each of the path generations.
\<close>

record task_env =
  schema_context :: "error + string"
  path_envs :: "nat \<Rightarrow> path_env"

text \<open>The root node that \<^verbatim>\<open>solve\<close> creates, lines 111-123.\<close>

definition root_node_of :: "Task \<Rightarrow> MCTSNode" where
  "root_node_of task =
     \<lparr>node_type = ROOT, depth = 0, db_id = task_db_id task, final_sql_query = [],
      path_parent_actions = [None]\<rparr>"

text \<open>
  One iteration of the loop over \<^verbatim>\<open>range(num_paths)\<close>, lines 133-147: the
  \<^verbatim>\<open>try\<close> block appends a path whose last node is terminal; \<^verbatim>\<open>except Exception\<close>
  reports any error (also that of \<^verbatim>\<open>path[-1]\<close> on an empty path) and goes on.
\<close>

definition attempt_path ::
  "solver \<Rightarrow> path_env \<Rightarrow> MCTSNode \<Rightarrow> MCTSNode list list \<Rightarrow> MCTSNode list list" where
  "attempt_path S E root_node all_reasoning_paths =
     (case generate_one_path S E root_node of
        Inl e \<Rightarrow> all_reasoning_paths
      | Inr path \<Rightarrow>
          (case path of
             [] \<Rightarrow> all_reasoning_paths
           | _ # _ \<Rightarrow>
               if is_terminal (last path) then all_reasoning_paths @ [path]
               else all_reasoning_paths))"

fun collect_paths ::
  "solver \<Rightarrow> (nat \<Rightarrow> path_env) \<Rightarrow> MCTSNode \<Rightarrow> nat list \<Rightarrow> MCTSNode list list
     \<Rightarrow> MCTSNode list list" where
  "collect_paths S envs root_node [] all_reasoning_paths = all_reasoning_paths"
| "collect_paths S envs root_node (path_idx # rest) all_reasoning_paths =
     collect_paths S envs root_node rest
       (attempt_path S (envs path_idx) root_node all_reasoning_paths)"

text \<open>
  The output directory: the artifact \<^verbatim>\<open><question_id>.pkl\<close>, a list of paths, for each
  question identifier that has one.
\<close>

type_synonym save_dir = "int \<Rightarrow> MCTSNode list list option"

text \<open>\<^verbatim>\<open>LLMGuidedSolver.solve\<close>, lines 97-158; \<open>Inl\<close> when it raises.\<close>

definition solve :: "solver \<Rightarrow> task_env \<Rightarrow> Task \<Rightarrow> save_dir \<Rightarrow> error + save_dir" where
  "solve S W task dir =
     (case schema_context W of
        Inl e \<Rightarrow> Inl e
      | Inr ctx \<Rightarrow>
          (let all_reasoning_paths =
                 collect_paths S (path_envs W) (root_node_of task) [0..<nat (num_paths S)] []
           in Inr (dir(question_id task \<mapsto> all_reasoning_paths))))"

section \<open>The batch runner (\<^verbatim>\<open>llm_guided_runner.py\<close>)\<close>

text \<open>\<^verbatim>\<open>LLMGuidedRunner.run_one_task\<close>, lines 52-72: an error of \<^verbatim>\<open>solve\<close> is logged.\<close>

definition run_one_task :: "solver \<Rightarrow> Task \<times> task_env \<Rightarrow> save_dir \<Rightarrow> save_dir" where
  "run_one_task S tw dir =
     (case solve S (snd tw) (fst tw) dir of Inl e \<Rightarrow> dir | Inr dir' \<Rightarrow> dir')"

text \<open>
  The task list after the two filters of \<^verbatim>\<open>run_all_tasks\<close>, lines 78-90: the optional
  subset, then the tasks whose identifier is not among the stems of the \<^verbatim>\<open>*.pkl\<close>
  files of the output directory. Each task comes with the environment its solving
  would meet.
\<close>

definition tasks_to_solve ::
  "int list option \<Rightarrow> (Task \<times> task_env) list \<Rightarrow> save_dir \<Rightarrow> (Task \<times> task_env) list" where
  "tasks_to_solve subset_ids tasks dir =
     (let tasks1 =
        (case subset_ids of
           None \<Rightarrow> tasks
         | Some ids \<Rightarrow> filter (\<lambda>tw. question_id (fst tw) \<in> set ids) tasks)
      in filter (\<lambda>tw. dir (question_id (fst tw)) = None) tasks1)"

text \<open>
  \<^verbatim>\<open>LLMGuidedRunner.run_all_tasks\<close>, lines 74-99. The worker processes share nothing
  but the output directory, where each writes the artifact of its own task; they are
  run here one after the other, in the order of the list.
\<close>

definition run_all_tasks ::
  "solver \<Rightarrow> int list option \<Rightarrow> (Task \<times> task_env) list \<Rightarrow> save_dir \<Rightarrow> save_dir" where
  "run_all_tasks S subset_ids tasks dir =
     fold (run_one_task S) (tasks_to_solve subset_ids tasks dir) dir"

section \<open>Self-consistency selection (\<^verbatim>\<open>sql_selection.py\<close>)\<close>

text \<open>
  The result of executing a query: the rows of a successful execution, or a failure
  (any result type other than \<^verbatim>\<open>"success"\<close>) with its message.
\<close>

datatype 'r execution_result = Success "'r list" | Failure string

text \<open>
  The external collaborators of the selector: the cached executor, the validity
  predicate and the latency measurement, whose value may differ from call to call (its
  first argument numbers the calls made for one dictionary of groups).
\<close>

record 'r sql_oracle =
  cached_execute_sql_with_timeout :: "string \<Rightarrow> string \<Rightarrow> 'r execution_result"
  is_valid_execution_result :: "'r execution_result \<Rightarrow> bool"
  measure_sql_execution_time :: "nat \<Rightarrow> string \<Rightarrow> string \<Rightarrow> nat \<Rightarrow> real"

definition EXECUTION_TIME_REPEAT :: nat where
  "EXECUTION_TIME_REPEAT = 20"

text \<open>
  A \<^verbatim>\<open>defaultdict(list)\<close> keyed by \<^verbatim>\<open>frozenset(answer.result)\<close>: its items in
  insertion order.
\<close>

type_synonym 'r result_groups = "('r set \<times> nat list) list"

text \<open>\<^verbatim>\<open>groups[key].append(idx)\<close>.\<close>

fun group_append :: "'r set \<Rightarrow> nat \<Rightarrow> 'r result_groups \<Rightarrow> 'r result_groups" where
  "group_append key idx [] = [(key, [idx])]"
| "group_append key idx ((k, path_indices) # rest) =
     (if k = key then (k, path_indices @ [idx]) # rest
      else (k, path_indices) # group_append key idx rest)"

text \<open>
  The loop over \<^verbatim>\<open>enumerate(results)\<close>, lines 28-34, from index \<open>idx\<close> on;
  \<^verbatim>\<open>result[-1]\<close> raises on an empty path.
\<close>

fun build_groups ::
  "'r sql_oracle \<Rightarrow> string \<Rightarrow> nat \<Rightarrow> MCTSNode list list
     \<Rightarrow> 'r result_groups \<times> 'r result_groups
     \<Rightarrow> error + ('r result_groups \<times> 'r result_groups)" where
  "build_groups oracle db_path idx [] groups = Inr groups"
| "build_groups oracle db_path idx (result # rest) (result_groups, result_groups_with_invalid_result) =
     (case result of
        [] \<Rightarrow> Inl IndexError
      | _ # _ \<Rightarrow>
          (let sql_query = final_sql_query (last result);
               answer = cached_execute_sql_with_timeout oracle db_path sql_query
           in case answer of
                Success rows \<Rightarrow>
                  build_groups oracle db_path (Suc idx) rest
                    (if is_valid_execution_result oracle answer
                       then group_append (set rows) idx result_groups
                       else result_groups,
                     group_append (set rows) idx result_groups_with_invalid_result)
              | Failure msg \<Rightarrow>
                  build_groups oracle db_path (Suc idx) rest
                    (result_groups, result_groups_with_invalid_result)))"

text \<open>\<^verbatim>\<open>results[i][-1].final_sql_query\<close>.\<close>

definition final_sql_of :: "MCTSNode list list \<Rightarrow> nat \<Rightarrow> error + string" where
  "final_sql_of results i =
     (if length results \<le> i then Inl IndexError
      else case results ! i of
             [] \<Rightarrow> Inl IndexError
           | _ # _ \<Rightarrow> Inr (final_sql_query (last (results ! i))))"

text \<open>
  The loop over the items of a dictionary of groups, lines 82-85 (and, over the other
  dictionary, lines 41-46): the entries \<open>(path_indices[0], sc_score, execution_time)\<close>.
  \<open>all_groups\<close> is the whole dictionary, \<open>k\<close> counts the items already visited.
\<close>

fun path_idx_with_sc_score ::
  "'r sql_oracle \<Rightarrow> string \<Rightarrow> MCTSNode list list \<Rightarrow> 'r result_groups \<Rightarrow> nat
     \<Rightarrow> 'r result_groups \<Rightarrow> error + (nat \<times> real \<times> real) list" where
  "path_idx_with_sc_score oracle db_path results all_groups k [] = Inr []"
| "path_idx_with_sc_score oracle db_path results all_groups k ((answer, path_indices) # rest) =
     (let total = sum_list (map (\<lambda>v. length (snd v)) all_groups) in
      if total = 0 then Inl ZeroDivisionError
      else
        (let sc_score = real (length path_indices) / real total in
         case py_first path_indices of
           Inl e \<Rightarrow> Inl e
         | Inr rep \<Rightarrow>
             (case final_sql_of results rep of
                Inl e \<Rightarrow> Inl e
              | Inr sql \<Rightarrow>
                  (let execution_time =
                         measure_sql_execution_time oracle k db_path sql EXECUTION_TIME_REPEAT
                   in case path_idx_with_sc_score oracle db_path results all_groups (Suc k) rest of
                        Inl e \<Rightarrow> Inl e
                      | Inr entries \<Rightarrow> Inr ((rep, sc_score, execution_time) # entries)))))"

text \<open>
  \<^verbatim>\<open>xs.sort(key=f, reverse=True)\<close>: the stable sort of the reversed list, reversed,
  which keeps elements of equal key in their original order.
\<close>

definition py_sort_reverse :: "('a \<Rightarrow> 'k::linorder) \<Rightarrow> 'a list \<Rightarrow> 'a list" where
  "py_sort_reverse f xs = rev (sort_key f (rev xs))"

text \<open>The key \<^verbatim>\<open>lambda x: (x[1], -x[2])\<close>; pairs are compared lexicographically.\<close>

definition sort_key_of :: "nat \<times> real \<times> real \<Rightarrow> real \<times> real" where
  "sort_key_of x = (fst (snd x), - snd (snd x))"

text \<open>
  Scoring, ranking and picking over one dictionary of groups: lines 81-88, and the
  same statements over the other dictionary at lines 40-58.
\<close>

definition select_from_groups ::
  "'r sql_oracle \<Rightarrow> string \<Rightarrow> MCTSNode list list \<Rightarrow> 'r result_groups \<Rightarrow> error + string" where
  "select_from_groups oracle db_path results groups =
     (case path_idx_with_sc_score oracle db_path results groups 0 groups of
        Inl e \<Rightarrow> Inl e
      | Inr entries \<Rightarrow>
          (case py_first (py_sort_reverse sort_key_of entries) of
             Inl e \<Rightarrow> Inl e
           | Inr best \<Rightarrow> final_sql_of results (fst best)))"

text \<open>The dictionary that \<^verbatim>\<open>select_final_sql_query\<close> returns.\<close>

record selected_item =
  item_question_id :: int
  item_db_id :: string
  sql :: string

text \<open>\<^verbatim>\<open>f"{db_root_dir}/{db_id}/{db_id}.sqlite"\<close>.\<close>

definition db_path_of :: "string \<Rightarrow> string \<Rightarrow> string" where
  "db_path_of db_root_dir dbid = db_root_dir @ ''/'' @ dbid @ ''/'' @ dbid @ ''.sqlite''"

text \<open>
  \<^verbatim>\<open>select_final_sql_query\<close>, lines 13-94. Its arguments here are the question
  identifier read off the file name and the unpickled content of the file (\<open>None\<close>
  for Python's \<^verbatim>\<open>None\<close>).
\<close>

definition select_final_sql_query ::
  "'r sql_oracle \<Rightarrow> int \<Rightarrow> MCTSNode list list option \<Rightarrow> string \<Rightarrow> error + selected_item" where
  "select_final_sql_query oracle qid results_opt db_root_dir =
     (case results_opt of
        None \<Rightarrow> Inr \<lparr>item_question_id = qid, item_db_id = ''financial'', sql = ''ERROR''\<rparr>
      | Some [] \<Rightarrow> Inr \<lparr>item_question_id = qid, item_db_id = ''financial'', sql = ''ERROR''\<rparr>
      | Some (first_path # others) \<Rightarrow>
          (let results = first_path # others in
           case py_first first_path of
             Inl e \<Rightarrow> Inl e
           | Inr first_node \<Rightarrow>
               (let dbid = db_id first_node;
                    db_path = db_path_of db_root_dir dbid
                in case build_groups oracle db_path 0 results ([], []) of
                     Inl e \<Rightarrow> Inl e
                   | Inr (result_groups, result_groups_with_invalid_result) \<Rightarrow>
                       if length result_groups = 0 then
                         (if length result_groups_with_invalid_result > 0 then
                            (case select_from_groups oracle db_path results
                                    result_groups_with_invalid_result of
                               Inl e \<Rightarrow> Inl e
                             | Inr final_selected_sql_query \<Rightarrow>
                                 Inr \<lparr>item_question_id = qid, item_db_id = dbid,
                                      sql = final_selected_sql_query\<rparr>)
                          else
                            Inr \<lparr>item_question_id = qid, item_db_id = dbid, sql = ''ERROR''\<rparr>)
                       else
                         (case select_from_groups oracle db_path results result_groups of
                            Inl e \<Rightarrow> Inl e
                          | Inr final_selected_sql_query \<Rightarrow>
                              Inr \<lparr>item_question_id = qid, item_db_id = dbid,
                                   sql = final_selected_sql_query\<rparr>))))"

section \<open>The selection rule as the specification words it\<close>

text \<open>
  The rule of the specification over a dictionary of groups: the representative of a
  group is the first index of its list; its score is the size of the group divided by
  the sum of the sizes of all groups; its latency is what the measurement returns for
  the representative's final SQL; the chosen SQL is the final SQL of the representative
  of a group that no other group beats, where a group beats another by a higher score
  or, at equal scores, a lower latency. Scores and latencies are Python floats in the
  source and real numbers here: the quotient of two integers below \<open>2^53\<close> is rounded
  monotonically and keeps quotients with a common denominator apart, so the two
  orders agree.
\<close>

definition selected_by_consistency ::
  "'r sql_oracle \<Rightarrow> string \<Rightarrow> MCTSNode list list \<Rightarrow> 'r result_groups \<Rightarrow> string \<Rightarrow> bool" where
  "selected_by_consistency oracle db_path results groups chosen_sql =
     (let representative = (\<lambda>i. hd (snd (groups ! i)));
          score = (\<lambda>i. real (length (snd (groups ! i)))
                         / real (sum_list (map (\<lambda>v. length (snd v)) groups)));
          latency = (\<lambda>i. measure_sql_execution_time oracle i db_path
                             (final_sql_query (last (results ! representative i)))
                             EXECUTION_TIME_REPEAT)
      in \<exists>j < length groups.
           (\<forall>i < length groups. score i < score j \<or> (score i = score j \<and> latency j \<le> latency i))
           \<and> chosen_sql = final_sql_query (last (results ! representative j)))"

text \<open>
  The lists of a dictionary of groups hold the indices of their paths in the order in
  which the paths were seen: each list is non-empty and ascending, so that its first
  element is its least, and every index names a non-empty path of the results.
\<close>

definition first_seen_groups :: "MCTSNode list list \<Rightarrow> 'r result_groups \<Rightarrow> bool" where
  "first_seen_groups results groups =
     list_all (\<lambda>(key, path_indices).
        path_indices \<noteq> [] \<and> sorted path_indices
        \<and> list_all (\<lambda>i. i < length results \<and> results ! i \<noteq> []) path_indices) groups"

text \<open>
  The path of index \<open>i\<close> belongs under the key \<open>key\<close>: its final SQL executes
  successfully to that set of rows and, when \<open>only_valid\<close>, the result is valid.
\<close>

definition in_group ::
  "'r sql_oracle \<Rightarrow> string \<Rightarrow> MCTSNode list list \<Rightarrow> bool \<Rightarrow> nat \<Rightarrow> 'r set \<Rightarrow> bool" where
  "in_group oracle db_path results only_valid i key =
     (case cached_execute_sql_with_timeout oracle db_path
             (final_sql_query (last (results ! i))) of
        Success rows \<Rightarrow>
          set rows = key
          \<and> (if only_valid then is_valid_execution_result oracle (Success rows) else True)
      | Failure msg \<Rightarrow> False)"

text \<open>
  A dictionary of groups partitions the first \<open>n\<close> paths by result: its keys are
  distinct, the list under a key holds exactly the indices of the paths that belong
  under it, and no path belongs under a key that the dictionary lacks.
\<close>

definition groups_partition ::
  "'r sql_oracle \<Rightarrow> string \<Rightarrow> MCTSNode list list \<Rightarrow> bool \<Rightarrow> nat \<Rightarrow> 'r result_groups \<Rightarrow> bool" where
  "groups_partition oracle db_path results only_valid n groups =
     (distinct (map fst groups)
      \<and> (\<forall>key. case map_of groups key of
                  None \<Rightarrow> \<not> (\<exists>i < n. in_group oracle db_path results only_valid i key)
                | Some path_indices \<Rightarrow>
                    (\<forall>i. i \<in> set path_indices \<longleftrightarrow>
                         i < n \<and> in_group oracle db_path results only_valid i key)))"

text \<open>Every list of the groups is non-empty, ascending and below \<open>n\<close>.\<close>

definition groups_below :: "nat \<Rightarrow> 'r result_groups \<Rightarrow> bool" where
  "groups_below n groups =
     (\<forall>g \<in> set groups. snd g \<noteq> [] \<and> sorted (snd g) \<and> (\<forall>i \<in> set (snd g). i < n))"

text \<open>
  The entry that the loop over the items computes for the \<open>j\<close>-th item \<open>g\<close> of a
  dictionary, given as the pair \<open>(j, g)\<close>.
\<close>

definition entry_of ::
  "'r sql_oracle \<Rightarrow> string \<Rightarrow> MCTSNode list list \<Rightarrow> 'r result_groups
     \<Rightarrow> nat \<times> ('r set \<times> nat list) \<Rightarrow> nat \<times> real \<times> real" where
  "entry_of oracle db_path results all_groups jg =
     (hd (snd (snd jg)),
      real (length (snd (snd jg))) / real (sum_list (map (\<lambda>v. length (snd v)) all_groups)),
      measure_sql_execution_time oracle (fst jg) db_path
        (final_sql_query (last (results ! hd (snd (snd jg))))) EXECUTION_TIME_REPEAT)"

section \<open>An example environment\<close>

text \<open>
  A deterministic stand-in for the collaborators, on which the definitions above can
  be run: applying an action yields one child of the action's node type, SQL generation
  emits a query and every other action carries the current query forward; the model's
  response never has a structured block, so the heuristic decides.
\<close>

definition example_child :: "MCTSAction \<Rightarrow> MCTSNode \<Rightarrow> MCTSNode" where
  "example_child a n =
     \<lparr>node_type =
        (case a of
           RaphraseQuestionAction \<Rightarrow> REPHRASE_QUESTION
         | SchemaSelectionAction \<Rightarrow> SCHEMA_SELECTION
         | IdentifyColumnValuesAction \<Rightarrow> IDENTIFY_COLUMN_VALUES
         | IdentifyColumnFunctionsAction \<Rightarrow> IDENTIFY_COLUMN_FUNCTIONS
         | SQLGenerationAction \<Rightarrow> SQL_GENERATION
         | SQLRevisionAction \<Rightarrow> SQL_REVISION
         | EndAction \<Rightarrow> END),
      depth = depth n + 1,
      db_id = db_id n,
      final_sql_query = (if a = SQLGenerationAction then ''SELECT 1'' else final_sql_query n),
      path_parent_actions = path_parent_actions n @ [Some a]\<rparr>"

definition example_valid :: "MCTSNode \<Rightarrow> MCTSAction list" where
  "example_valid n =
     (case node_type n of
        ROOT \<Rightarrow> [RaphraseQuestionAction, SchemaSelectionAction]
      | SCHEMA_SELECTION \<Rightarrow> [IdentifyColumnValuesAction, SQLGenerationAction]
      | SQL_GENERATION \<Rightarrow> [SQLRevisionAction, EndAction]
      | SQL_REVISION \<Rightarrow> [SQLRevisionAction, EndAction]
      | _ \<Rightarrow> [])"

definition example_env :: path_env where
  "example_env =
     \<lparr>get_valid_action_space_for_node = example_valid,
      llm_outcome_at = (\<lambda>k. NoJsonBlock),
      create_children_nodes = (\<lambda>site a n. Inr [example_child a n])\<rparr>"

definition example_solver :: "int \<Rightarrow> solver" where
  "example_solver n =
     \<lparr>max_steps = n, max_depth = 16, num_paths = 3, solver_llm_kwargs = \<lparr>model = Some ''m''\<rparr>\<rparr>"

definition example_root :: MCTSNode where
  "example_root = root_node_of \<lparr>question_id = 7, task_db_id = ''financial''\<rparr>"

text \<open>
  Three path generations: in the first every action application raises, in the second
  none yields a child, the third is the environment above.
\<close>

definition example_envs :: "nat \<Rightarrow> path_env" where
  "example_envs i =
     (if i = 0 then example_env\<lparr>create_children_nodes := (\<lambda>site a n. Inl ExternalError)\<rparr>
      else if i = 1 then example_env\<lparr>create_children_nodes := (\<lambda>site a n. Inr [])\<rparr>
      else example_env)"

definition example_task_env :: task_env where
  "example_task_env = \<lparr>schema_context = Inr ''CREATE TABLE t (a)'', path_envs = example_envs\<rparr>"

definition example_task :: "int \<Rightarrow> Task" where
  "example_task q = \<lparr>question_id = q, task_db_id = ''financial''\<rparr>"

definition example_path :: "MCTSNode list" where
  "example_path =
     [example_root, example_child SchemaSelectionAction example_root,
      example_child SQLGenerationAction (example_child SchemaSelectionAction example_root),
      example_child EndAction
        (example_child SQLGenerationAction (example_child SchemaSelectionAction example_root))]"

text \<open>
  An executor that knows a few queries and fails on every other, the validity predicate
  "the result has a row", a latency that grows with the length of the query, and paths
  that end with a given final SQL.
\<close>

definition example_oracle :: "nat list sql_oracle" where
  "example_oracle =
     \<lparr>cached_execute_sql_with_timeout =
        (\<lambda>db_path sql_query.
           if sql_query = ''SELECT 1'' then Success [[1]]
           else if sql_query = ''SELECT 1 + 0'' then Success [[1]]
           else if sql_query = ''SELECT 2'' then Success [[2]]
           else if sql_query = ''SELECT 3 WHERE 0'' then Success []
           else Failure ''syntax error''),
      is_valid_execution_result =
        (\<lambda>answer. case answer of Success rows \<Rightarrow> rows \<noteq> [] | Failure msg \<Rightarrow> False),
      measure_sql_execution_time = (\<lambda>k db_path sql_query repeat. real (length sql_query))\<rparr>"

definition example_result :: "string \<Rightarrow> MCTSNode list" where
  "example_result sql_query =
     [example_root,
      \<lparr>node_type = END, depth = 1, db_id = ''financial'', final_sql_query = sql_query,
       path_parent_actions = [None, Some EndAction]\<rparr>]"

text \<open>A path of a task on another database, whose final SQL does not execute.\<close>

definition california_result :: "MCTSNode list" where
  "california_result =
     [\<lparr>node_type = ROOT, depth = 0, db_id = ''california_schools'', final_sql_query = [],
       path_parent_actions = [None]\<rparr>,
      \<lparr>node_type = END, depth = 1, db_id = ''california_schools'',
       final_sql_query = ''SELEC 1'', path_parent_actions = [None, Some EndAction]\<rparr>]"

section \<open>The heuristic strategy\<close>

lemma py_next_mem:
  "a \<in> set xs \<Longrightarrow> py_next (\<lambda>b. b = a) xs = Inr a"
  by (induction xs) (auto simp: py_next_def)

lemma default_action_selection_cases:
  "valid_actions \<noteq> [] \<Longrightarrow>
   default_action_selection node valid_actions =
     Inr (if EndAction \<in> set valid_actions \<and> has_sql_generation node then EndAction
          else if SQLGenerationAction \<in> set valid_actions \<and> has_schema_selection node
            then SQLGenerationAction
          else if SchemaSelectionAction \<in> set valid_actions \<and> \<not> has_schema_selection node
            then SchemaSelectionAction
          else hd valid_actions)"
  by (cases valid_actions) (simp_all add: default_action_selection_def py_next_mem py_first_def)

lemma default_action_selection_total:
  "valid_actions \<noteq> [] \<Longrightarrow> \<exists>a. default_action_selection node valid_actions = Inr a"
  by (simp add: default_action_selection_cases)

lemma default_action_selection_member:
  assumes "default_action_selection node valid_actions = Inr a"
  shows "a \<in> set valid_actions"
proof (cases valid_actions)
  case Nil
  with assms show ?thesis
    by (simp add: default_action_selection_def py_first_def)
next
  case (Cons x xs)
  then have "valid_actions \<noteq> []" by simp
  from default_action_selection_cases [OF this, of node] assms Cons show ?thesis
    by (auto split: if_splits)
qed

lemma sorted_rank_hd_least:
  assumes "sorted (map catalogue_rank (x # xs))" "c \<in> set (x # xs)"
  shows "catalogue_rank x \<le> catalogue_rank c"
  using assms by auto

lemma first_legal_sorted:
  assumes "sorted (map catalogue_rank (x # xs))"
  shows "first_legal_in_catalogue_order (x # xs) = Some x"
proof -
  have notin: "c \<notin> set xs" if "catalogue_rank c < catalogue_rank x" for c
    using sorted_rank_hd_least [OF assms, of c] that by auto
  show ?thesis
    unfolding first_legal_in_catalogue_order_def catalogue_def
    by (cases x) (simp_all add: notin)
qed

text \<open>
  Claim C2, as the code has it. For every node and every non-empty list of legal
  actions the heuristic returns End if End is legal and an SQL generation has occurred
  on the path; else SQLGeneration if it is legal and a schema selection has occurred;
  else SchemaSelection if it is legal and has not occurred; else the first element of
  the list of legal actions as it was passed. That element is the first legal action
  in catalogue order whenever the list is in catalogue order.
\<close>

theorem default_action_selection_priority:
  assumes "valid_actions \<noteq> []"
  shows "default_action_selection node valid_actions =
           Inr (if EndAction \<in> set valid_actions \<and> has_sql_generation node then EndAction
                else if SQLGenerationAction \<in> set valid_actions \<and> has_schema_selection node
                  then SQLGenerationAction
                else if SchemaSelectionAction \<in> set valid_actions \<and> \<not> has_schema_selection node
                  then SchemaSelectionAction
                else hd valid_actions)
         \<and> (sorted (map catalogue_rank valid_actions) \<longrightarrow>
              first_legal_in_catalogue_order valid_actions = Some (hd valid_actions))"
proof (cases valid_actions)
  case Nil
  with assms show ?thesis by simp
next
  case (Cons x xs)
  show ?thesis
    using default_action_selection_cases [OF assms, of node] first_legal_sorted [of x xs] Cons
    by simp
qed

theorem default_action_selection_priority_witness:
  "default_action_selection
      \<lparr>node_type = SQL_GENERATION, depth = 2, db_id = ''financial'',
       final_sql_query = ''SELECT 1'',
       path_parent_actions = [None, Some SchemaSelectionAction, Some SQLGenerationAction]\<rparr>
      [SQLRevisionAction, EndAction] = Inr EndAction
   \<and> first_legal_in_catalogue_order [SQLRevisionAction, EndAction] = Some SQLRevisionAction"
  using default_action_selection_priority [of "[SQLRevisionAction, EndAction]"
      "\<lparr>node_type = SQL_GENERATION, depth = 2, db_id = ''financial'',
       final_sql_query = ''SELECT 1'',
       path_parent_actions = [None, Some SchemaSelectionAction, Some SQLGenerationAction]\<rparr>"]
  by (simp add: has_sql_generation_def)

text \<open>
  The fourth rule is about the list, not about the catalogue: on a root node with the
  legal actions IdentifyColumnValues, Rephrase (in this order) none of the first three
  rules applies and the heuristic returns IdentifyColumnValues, while the first legal
  action in catalogue order is Rephrase.
\<close>

theorem default_action_selection_not_catalogue_order:
  "default_action_selection
      \<lparr>node_type = ROOT, depth = 0, db_id = ''financial'', final_sql_query = [],
       path_parent_actions = [None]\<rparr>
      [IdentifyColumnValuesAction, RaphraseQuestionAction] = Inr IdentifyColumnValuesAction
   \<and> first_legal_in_catalogue_order [IdentifyColumnValuesAction, RaphraseQuestionAction]
       = Some RaphraseQuestionAction"
  by (simp add: default_action_selection_def has_sql_generation_def has_schema_selection_def
      py_first_def first_legal_in_catalogue_order_def catalogue_def)

section \<open>The model-driven strategy\<close>

lemma select_action_try_member:
  assumes "select_action_try kwargs outcome node valid_actions = Inr a"
  shows "a \<in> set valid_actions"
  using assms
  by (auto simp: select_action_try_def json_get_def minus_one_def
      dest: default_action_selection_member
      split: if_splits llm_outcome.splits json.splits sum.splits option.splits py_number.splits)

lemma select_action_total:
  assumes "valid_actions \<noteq> []"
  shows "\<exists>a. select_action kwargs outcome node valid_actions = Inr a \<and> a \<in> set valid_actions"
proof (cases "select_action_try kwargs outcome node valid_actions")
  case (Inl e)
  then show ?thesis
    using default_action_selection_total [OF assms, of node]
    by (auto simp: select_action_def dest: default_action_selection_member)
next
  case (Inr a)
  then show ?thesis
    by (simp add: select_action_def select_action_try_member)
qed




section \<open>The path-generation loop\<close>

lemma path_loop_stop:
  "is_terminal current \<or> max_steps S \<le> int step \<or> max_depth S \<le> depth current \<Longrightarrow>
   path_loop S E current path step = Inr (current, path, step)"
  by (subst path_loop.simps) auto

lemma path_loop_bounds:
  "path_loop S E current path step = Inr (c, p, s) \<Longrightarrow>
   step \<le> s \<and> (s = step \<or> int s \<le> max_steps S) \<and> length p = length path + (s - step)"
proof (induction S E current path step rule: path_loop.induct)
  case (1 S E current path step)
  show ?case
  proof (cases "\<not> is_terminal current \<and> int step < max_steps S \<and> depth current < max_depth S")
    case False
    with "1.prems" show ?thesis
      by (subst (asm) path_loop.simps) auto
  next
    case running: True
    show ?thesis
    proof (cases "get_valid_action_space_for_node E current = []")
      case True
      with running "1.prems" show ?thesis
        by (subst (asm) path_loop.simps) auto
    next
      case nonempty: False
      from "1.prems" running nonempty obtain a where
        sel: "select_action (solver_llm_kwargs S) (llm_outcome_at E step) current
                (get_valid_action_space_for_node E current) = Inr a"
        by (subst (asm) path_loop.simps) (auto split: sum.splits)
      from "1.prems" running nonempty sel obtain children where
        ch: "create_children_nodes E (LoopStep step) a current = Inr children"
        by (subst (asm) path_loop.simps) (auto split: sum.splits)
      show ?thesis
      proof (cases children)
        case Nil
        with "1.prems" running nonempty sel ch show ?thesis
          by (subst (asm) path_loop.simps) auto
      next
        case (Cons child rest)
        with "1.prems" running nonempty sel ch
        have rec: "path_loop S E child (path @ [child]) (step + 1) = Inr (c, p, s)"
          by (subst (asm) path_loop.simps) auto
        from "1.IH" [OF running refl nonempty sel ch Cons rec] running
        show ?thesis by auto
      qed
    qed
  qed
qed

lemma path_loop_last:
  "path_loop S E current path step = Inr (c, p, s) \<Longrightarrow> path \<noteq> [] \<Longrightarrow> last path = current \<Longrightarrow>
   p \<noteq> [] \<and> last p = c \<and> hd p = hd path"
proof (induction S E current path step rule: path_loop.induct)
  case (1 S E current path step)
  show ?case
  proof (cases "\<not> is_terminal current \<and> int step < max_steps S \<and> depth current < max_depth S")
    case False
    with "1.prems" show ?thesis
      by (subst (asm) path_loop.simps) auto
  next
    case running: True
    show ?thesis
    proof (cases "get_valid_action_space_for_node E current = []")
      case True
      with running "1.prems" show ?thesis
        by (subst (asm) path_loop.simps) auto
    next
      case nonempty: False
      from "1.prems" running nonempty obtain a where
        sel: "select_action (solver_llm_kwargs S) (llm_outcome_at E step) current
                (get_valid_action_space_for_node E current) = Inr a"
        by (subst (asm) path_loop.simps) (auto split: sum.splits)
      from "1.prems" running nonempty sel obtain children where
        ch: "create_children_nodes E (LoopStep step) a current = Inr children"
        by (subst (asm) path_loop.simps) (auto split: sum.splits)
      show ?thesis
      proof (cases children)
        case Nil
        with "1.prems" running nonempty sel ch show ?thesis
          by (subst (asm) path_loop.simps) auto
      next
        case (Cons child rest)
        with "1.prems" running nonempty sel ch
        have rec: "path_loop S E child (path @ [child]) (step + 1) = Inr (c, p, s)"
          by (subst (asm) path_loop.simps) auto
        from "1.IH" [OF running refl nonempty sel ch Cons rec] "1.prems"(2)
        show ?thesis by auto
      qed
    qed
  qed
qed


lemma path_loop_step:
  assumes "\<not> is_terminal current" "int step < max_steps S" "depth current < max_depth S"
    and "get_valid_action_space_for_node E current \<noteq> []"
    and "select_action (solver_llm_kwargs S) (llm_outcome_at E step) current
           (get_valid_action_space_for_node E current) = Inr a"
  shows "path_loop S E current path step =
           (case create_children_nodes E (LoopStep step) a current of
              Inl e \<Rightarrow> Inl e
            | Inr [] \<Rightarrow> Inr (current, path, step)
            | Inr (child # rest) \<Rightarrow> path_loop S E child (path @ [child]) (step + 1))"
  using assms by (subst path_loop.simps) (simp split: sum.splits list.splits)

lemma path_loop_stuck:
  assumes "get_valid_action_space_for_node E current = []"
  shows "path_loop S E current path step = Inr (current, path, step)"
  using assms by (subst path_loop.simps) simp

text \<open>
  Claim C7. The loop of the path generator is a total function: its recursion is
  well-founded on the distance of the step count from \<open>max_steps\<close>. From any state it
  stops at once when the current node is terminal, the step count has reached
  \<open>max_steps\<close> or the depth has reached \<open>max_depth\<close>; a running state with no legal
  action stops without an error, and so does one whose selected action yields no
  child; otherwise the loop goes on from the first child, appended to the path, with
  the step count incremented. It makes at most \<open>max_steps\<close> steps, one node each.
\<close>

theorem path_loop_terminates:
  "(is_terminal current \<or> max_steps S \<le> int step \<or> max_depth S \<le> depth current \<longrightarrow>
      path_loop S E current path step = Inr (current, path, step))
   \<and> (get_valid_action_space_for_node E current = [] \<longrightarrow>
        path_loop S E current path step = Inr (current, path, step))
   \<and> (\<not> is_terminal current \<and> int step < max_steps S \<and> depth current < max_depth S
        \<and> get_valid_action_space_for_node E current \<noteq> [] \<longrightarrow>
        (\<exists>a. select_action (solver_llm_kwargs S) (llm_outcome_at E step) current
                (get_valid_action_space_for_node E current) = Inr a
           \<and> (case create_children_nodes E (LoopStep step) a current of
                 Inl e \<Rightarrow> path_loop S E current path step = Inl e
               | Inr [] \<Rightarrow> path_loop S E current path step = Inr (current, path, step)
               | Inr (child # rest) \<Rightarrow>
                   path_loop S E current path step
                     = path_loop S E child (path @ [child]) (step + 1))))
   \<and> (\<forall>c p s. path_loop S E current path step = Inr (c, p, s) \<longrightarrow>
         step \<le> s \<and> (s = step \<or> int s \<le> max_steps S)
         \<and> length p = length path + (s - step))"
proof (intro conjI)
  show "is_terminal current \<or> max_steps S \<le> int step \<or> max_depth S \<le> depth current \<longrightarrow>
      path_loop S E current path step = Inr (current, path, step)"
    using path_loop_stop by blast
  show "get_valid_action_space_for_node E current = [] \<longrightarrow>
        path_loop S E current path step = Inr (current, path, step)"
    using path_loop_stuck by blast
  show "\<forall>c p s. path_loop S E current path step = Inr (c, p, s) \<longrightarrow>
         step \<le> s \<and> (s = step \<or> int s \<le> max_steps S)
         \<and> length p = length path + (s - step)"
    using path_loop_bounds by blast
  show "\<not> is_terminal current \<and> int step < max_steps S \<and> depth current < max_depth S
        \<and> get_valid_action_space_for_node E current \<noteq> [] \<longrightarrow>
        (\<exists>a. select_action (solver_llm_kwargs S) (llm_outcome_at E step) current
                (get_valid_action_space_for_node E current) = Inr a
           \<and> (case create_children_nodes E (LoopStep step) a current of
                 Inl e \<Rightarrow> path_loop S E current path step = Inl e
               | Inr [] \<Rightarrow> path_loop S E current path step = Inr (current, path, step)
               | Inr (child # rest) \<Rightarrow>
                   path_loop S E current path step
                     = path_loop S E child (path @ [child]) (step + 1)))"
  proof
    assume run: "\<not> is_terminal current \<and> int step < max_steps S
        \<and> depth current < max_depth S
        \<and> get_valid_action_space_for_node E current \<noteq> []"
    then obtain a where
      sel: "select_action (solver_llm_kwargs S) (llm_outcome_at E step) current
              (get_valid_action_space_for_node E current) = Inr a"
      using select_action_total by blast
    from run have "path_loop S E current path step =
             (case create_children_nodes E (LoopStep step) a current of
                Inl e \<Rightarrow> Inl e
              | Inr [] \<Rightarrow> Inr (current, path, step)
              | Inr (child # rest) \<Rightarrow> path_loop S E child (path @ [child]) (step + 1))"
      using path_loop_step [OF _ _ _ _ sel] by blast
    then have "case create_children_nodes E (LoopStep step) a current of
                   Inl e \<Rightarrow> path_loop S E current path step = Inl e
                 | Inr [] \<Rightarrow> path_loop S E current path step = Inr (current, path, step)
                 | Inr (child # rest) \<Rightarrow>
                     path_loop S E current path step
                       = path_loop S E child (path @ [child]) (step + 1)"
      by (simp split: sum.splits list.splits)
    with sel show "\<exists>a. select_action (solver_llm_kwargs S) (llm_outcome_at E step) current
                  (get_valid_action_space_for_node E current) = Inr a
             \<and> (case create_children_nodes E (LoopStep step) a current of
                   Inl e \<Rightarrow> path_loop S E current path step = Inl e
                 | Inr [] \<Rightarrow> path_loop S E current path step = Inr (current, path, step)
                 | Inr (child # rest) \<Rightarrow>
                     path_loop S E current path step
                       = path_loop S E child (path @ [child]) (step + 1))"
      by blast
  qed
qed

lemmas example_defs =
  example_solver_def example_env_def example_root_def root_node_of_def
  example_valid_def example_child_def is_terminal_def select_action_def select_action_try_def
  default_action_selection_def has_sql_generation_def has_schema_selection_def py_next_def
  py_first_def

theorem path_loop_terminates_witness:
  "path_loop (example_solver 2) example_env example_root [example_root] 0 =
     Inr (example_child SQLGenerationAction (example_child SchemaSelectionAction example_root),
          [example_root, example_child SchemaSelectionAction example_root,
           example_child SQLGenerationAction (example_child SchemaSelectionAction example_root)],
          2)
   \<and> path_loop (example_solver 2) example_env example_root [example_root] 0 =
       path_loop (example_solver 2) example_env
         (example_child SchemaSelectionAction example_root)
         [example_root, example_child SchemaSelectionAction example_root] 1"
  using path_loop_terminates [of example_root "example_solver 2" 0 example_env "[example_root]"]
  by (simp add: path_loop.simps example_defs)

section \<open>Forced closure\<close>

lemma end_action_contract_closure:
  assumes "end_action_contract E"
    and "create_children_nodes E site EndAction n = Inr (end_node # rest)"
  shows "node_type end_node = END \<and> final_sql_query end_node = final_sql_query n"
  using assms unfolding end_action_contract_def by fastforce

text \<open>
  Claim C6. When the loop stops at a node that is not terminal and whose type is
  SQLGeneration or SQLRevision, the generator applies End once to that node and
  appends the first node this yields; when it yields none the path is returned as it
  is, not terminal. At a node of any other type, or a terminal one, the path is
  returned as it is. Where End behaves as the specification says, the appended node is
  terminal and its final SQL is that of the path's last node before the closure.
\<close>

theorem forced_closure:
  assumes "path_loop S E root_node [root_node] 0 = Inr (current, path, step)"
  shows "last path = current
       \<and> (is_terminal current \<or> node_type current \<notin> {SQL_GENERATION, SQL_REVISION} \<longrightarrow>
            generate_one_path S E root_node = Inr path)
       \<and> (\<not> is_terminal current \<and> node_type current \<in> {SQL_GENERATION, SQL_REVISION} \<longrightarrow>
            (case create_children_nodes E ForcedClosure EndAction current of
               Inl e \<Rightarrow> generate_one_path S E root_node = Inl e
             | Inr [] \<Rightarrow> generate_one_path S E root_node = Inr path
             | Inr (end_node # rest) \<Rightarrow>
                 generate_one_path S E root_node = Inr (path @ [end_node])
                 \<and> (end_action_contract E \<longrightarrow>
                      is_terminal end_node
                      \<and> final_sql_query end_node = final_sql_query (last path))))"
proof (intro conjI)
  show last: "last path = current"
    using path_loop_last [OF assms] by simp
  show "is_terminal current \<or> node_type current \<notin> {SQL_GENERATION, SQL_REVISION} \<longrightarrow>
            generate_one_path S E root_node = Inr path"
    using assms by (auto simp: generate_one_path_def force_end_def)
  show "\<not> is_terminal current \<and> node_type current \<in> {SQL_GENERATION, SQL_REVISION} \<longrightarrow>
            (case create_children_nodes E ForcedClosure EndAction current of
               Inl e \<Rightarrow> generate_one_path S E root_node = Inl e
             | Inr [] \<Rightarrow> generate_one_path S E root_node = Inr path
             | Inr (end_node # rest) \<Rightarrow>
                 generate_one_path S E root_node = Inr (path @ [end_node])
                 \<and> (end_action_contract E \<longrightarrow>
                      is_terminal end_node
                      \<and> final_sql_query end_node = final_sql_query (last path)))"
  proof
    assume open_end:
      "\<not> is_terminal current \<and> node_type current \<in> {SQL_GENERATION, SQL_REVISION}"
    have contract: "is_terminal end_node \<and> final_sql_query end_node = final_sql_query (last path)"
      if "create_children_nodes E ForcedClosure EndAction current = Inr (end_node # rest)"
        and "end_action_contract E" for end_node rest
      using that last end_action_contract_closure by (auto simp: is_terminal_def)
    show "case create_children_nodes E ForcedClosure EndAction current of
               Inl e \<Rightarrow> generate_one_path S E root_node = Inl e
             | Inr [] \<Rightarrow> generate_one_path S E root_node = Inr path
             | Inr (end_node # rest) \<Rightarrow>
                 generate_one_path S E root_node = Inr (path @ [end_node])
                 \<and> (end_action_contract E \<longrightarrow>
                      is_terminal end_node
                      \<and> final_sql_query end_node = final_sql_query (last path))"
      using open_end assms contract
      by (auto simp: generate_one_path_def force_end_def split: sum.splits list.splits)
  qed
qed

lemma example_env_contract: "end_action_contract example_env"
  by (simp add: end_action_contract_def example_env_def example_child_def)

theorem forced_closure_witness:
  "generate_one_path (example_solver 2) example_env example_root =
     Inr [example_root, example_child SchemaSelectionAction example_root,
          example_child SQLGenerationAction (example_child SchemaSelectionAction example_root),
          example_child EndAction
            (example_child SQLGenerationAction (example_child SchemaSelectionAction example_root))]
   \<and> final_sql_query (example_child EndAction
            (example_child SQLGenerationAction (example_child SchemaSelectionAction example_root)))
      = final_sql_query
          (example_child SQLGenerationAction (example_child SchemaSelectionAction example_root))
   \<and> is_terminal (example_child EndAction
            (example_child SQLGenerationAction (example_child SchemaSelectionAction example_root)))"
proof -
  have loop: "path_loop (example_solver 2) example_env example_root [example_root] 0 =
     Inr (example_child SQLGenerationAction (example_child SchemaSelectionAction example_root),
          [example_root, example_child SchemaSelectionAction example_root,
           example_child SQLGenerationAction (example_child SchemaSelectionAction example_root)],
          2)"
    by (simp add: path_loop.simps example_defs)
  have ch: "create_children_nodes example_env ForcedClosure EndAction
              (example_child SQLGenerationAction (example_child SchemaSelectionAction example_root))
            = Inr [example_child EndAction
                (example_child SQLGenerationAction
                  (example_child SchemaSelectionAction example_root))]"
    by (simp add: example_env_def)
  have ty: "node_type (example_child SQLGenerationAction
              (example_child SchemaSelectionAction example_root)) = SQL_GENERATION"
    by (simp add: example_child_def)
  show ?thesis
    using forced_closure [OF loop] example_env_contract
    by (simp add: ch ty is_terminal_def)
qed

section \<open>The solver persists the terminal paths\<close>

lemma generate_one_path_nonempty:
  assumes "generate_one_path S E root_node = Inr path"
  shows "path \<noteq> []"
proof -
  from assms obtain current p step where
    loop: "path_loop S E root_node [root_node] 0 = Inr (current, p, step)"
    and fe: "force_end E current p = Inr path"
    by (auto simp: generate_one_path_def split: sum.splits)
  from path_loop_last [OF loop] have "p \<noteq> []" by simp
  with fe show ?thesis
    by (auto simp: force_end_def split: if_splits sum.splits list.splits)
qed

lemma attempt_path_eq:
  "attempt_path S E root_node acc =
     acc @ (case generate_one_path S E root_node of
              Inl e \<Rightarrow> []
            | Inr path \<Rightarrow> if is_terminal (last path) then [path] else [])"
  using generate_one_path_nonempty [of S E root_node]
  by (auto simp: attempt_path_def split: sum.splits list.splits)

lemma collect_paths_eq:
  "collect_paths S envs root_node is acc =
     acc @ concat (map (\<lambda>i. case generate_one_path S (envs i) root_node of
                              Inl e \<Rightarrow> []
                            | Inr path \<Rightarrow> if is_terminal (last path) then [path] else []) is)"
  by (induction "is" arbitrary: acc) (simp_all add: attempt_path_eq)

text \<open>
  Claim C8. When \<^verbatim>\<open>solve\<close> gets past building the schema context it makes all
  \<open>num_paths\<close> attempts and persists, in the order of the attempts, exactly the paths
  of those attempts that returned a path whose last node is terminal: an attempt that
  raised, or whose path does not end in a terminal node, contributes nothing and the
  attempts after it are made all the same.
\<close>

theorem solve_persists_terminal_paths:
  "solve S W task dir =
     (case schema_context W of
        Inl e \<Rightarrow> Inl e
      | Inr ctx \<Rightarrow>
          Inr (dir(question_id task \<mapsto>
                 concat (map (\<lambda>i. case generate_one_path S (path_envs W i) (root_node_of task) of
                                     Inl e \<Rightarrow> []
                                   | Inr path \<Rightarrow> if is_terminal (last path) then [path] else [])
                           [0..<nat (num_paths S)]))))"
  by (simp add: solve_def collect_paths_eq split: sum.splits)

lemma example_generate_0:
  "generate_one_path (example_solver 2) (example_envs 0) example_root = Inl ExternalError"
  by (simp add: generate_one_path_def path_loop.simps example_envs_def example_defs)

lemma example_generate_1:
  "generate_one_path (example_solver 2) (example_envs 1) example_root = Inr [example_root]"
  by (simp add: generate_one_path_def force_end_def path_loop.simps example_envs_def example_defs)

lemma example_generate_2:
  "generate_one_path (example_solver 2) (example_envs 2) example_root = Inr example_path"
  by (simp add: generate_one_path_def force_end_def path_loop.simps example_envs_def
      example_path_def example_defs)

lemma upt_3: "[0..<3] = [0, 1, 2]"
  by (simp add: upt_rec)

lemma example_terminal:
  "\<not> is_terminal example_root" "is_terminal (last example_path)"
  by (simp_all add: example_path_def example_defs)

theorem solve_persists_terminal_paths_witness:
  "solve (example_solver 2) example_task_env (example_task 7) Map.empty
     = Inr [7 \<mapsto> [example_path]]"
  using solve_persists_terminal_paths
          [of "example_solver 2" example_task_env "example_task 7" Map.empty]
        example_generate_0 example_generate_1 example_generate_2 example_terminal
  by (simp add: example_task_env_def example_task_def example_root_def [symmetric] upt_3
      example_solver_def)

section \<open>The batch runner skips finished tasks\<close>

lemma run_one_task_other:
  "q \<noteq> question_id (fst tw) \<Longrightarrow> run_one_task S tw dir q = dir q"
  by (simp add: run_one_task_def solve_def split: sum.splits)

lemma fold_run_one_task_other:
  "q \<notin> (\<lambda>tw. question_id (fst tw)) ` set tws \<Longrightarrow> fold (run_one_task S) tws dir q = dir q"
  by (induction tws arbitrary: dir) (simp_all add: run_one_task_other)

lemma tasks_to_solve_pending:
  "tw \<in> set (tasks_to_solve subset_ids tasks dir) \<Longrightarrow>
   tw \<in> set tasks \<and> dir (question_id (fst tw)) = None"
  by (auto simp: tasks_to_solve_def split: option.splits)

lemma run_all_tasks_keeps:
  assumes "dir q = Some a"
  shows "run_all_tasks S subset_ids tasks dir q = Some a"
proof -
  have "q \<notin> (\<lambda>tw. question_id (fst tw)) ` set (tasks_to_solve subset_ids tasks dir)"
    using assms tasks_to_solve_pending by fastforce
  then show ?thesis
    using assms by (simp add: run_all_tasks_def fold_run_one_task_other)
qed

text \<open>
  Claim C9. A task whose artifact exists in the output directory is not among the
  tasks that \<^verbatim>\<open>run_all_tasks\<close> solves, which are the only ones it runs; every artifact
  that exists before the run is the same after it; and a second run over the
  resulting directory again leaves those tasks out.
\<close>

theorem run_all_tasks_skips_done:
  "(\<forall>tw \<in> set tasks. dir (question_id (fst tw)) \<noteq> None \<longrightarrow>
       tw \<notin> set (tasks_to_solve subset_ids tasks dir))
   \<and> run_all_tasks S subset_ids tasks dir
       = fold (run_one_task S) (tasks_to_solve subset_ids tasks dir) dir
   \<and> (\<forall>q a. dir q = Some a \<longrightarrow> run_all_tasks S subset_ids tasks dir q = Some a)
   \<and> (\<forall>tw \<in> set tasks. dir (question_id (fst tw)) \<noteq> None \<longrightarrow>
       tw \<notin> set (tasks_to_solve subset_ids tasks (run_all_tasks S subset_ids tasks dir)))"
proof (intro conjI)
  show "\<forall>tw \<in> set tasks. dir (question_id (fst tw)) \<noteq> None \<longrightarrow>
       tw \<notin> set (tasks_to_solve subset_ids tasks dir)"
    by (auto dest: tasks_to_solve_pending)
  show "run_all_tasks S subset_ids tasks dir
       = fold (run_one_task S) (tasks_to_solve subset_ids tasks dir) dir"
    by (simp add: run_all_tasks_def)
  show keep: "\<forall>q a. dir q = Some a \<longrightarrow> run_all_tasks S subset_ids tasks dir q = Some a"
    using run_all_tasks_keeps by blast
  show "\<forall>tw \<in> set tasks. dir (question_id (fst tw)) \<noteq> None \<longrightarrow>
       tw \<notin> set (tasks_to_solve subset_ids tasks (run_all_tasks S subset_ids tasks dir))"
  proof (intro ballI impI)
    fix tw assume "tw \<in> set tasks" "dir (question_id (fst tw)) \<noteq> None"
    then obtain a where "dir (question_id (fst tw)) = Some a" by blast
    then have "run_all_tasks S subset_ids tasks dir (question_id (fst tw)) = Some a"
      using keep by blast
    then show "tw \<notin> set (tasks_to_solve subset_ids tasks (run_all_tasks S subset_ids tasks dir))"
      using tasks_to_solve_pending by fastforce
  qed
qed

theorem run_all_tasks_skips_done_witness:
  "tasks_to_solve None [(example_task 7, example_task_env), (example_task 8, example_task_env)]
      [7 \<mapsto> [[example_root]]]
     = [(example_task 8, example_task_env)]
   \<and> run_all_tasks (example_solver 2) None
        [(example_task 7, example_task_env), (example_task 8, example_task_env)]
        [7 \<mapsto> [[example_root]]] 7
     = Some [[example_root]]"
proof -
  have "\<forall>q a. [7 \<mapsto> [[example_root]]] q = Some a \<longrightarrow>
          run_all_tasks (example_solver 2) None
            [(example_task 7, example_task_env), (example_task 8, example_task_env)]
            [7 \<mapsto> [[example_root]]] q = Some a"
    using run_all_tasks_skips_done
          [of "[(example_task 7, example_task_env), (example_task 8, example_task_env)]"
              "[7 \<mapsto> [[example_root]]]" None "example_solver 2"]
    by (elim conjE)
  then have "run_all_tasks (example_solver 2) None
        [(example_task 7, example_task_env), (example_task 8, example_task_env)]
        [7 \<mapsto> [[example_root]]] 7
     = Some [[example_root]]"
    by simp
  then show ?thesis
    by (simp add: tasks_to_solve_def example_task_def)
qed

lemma solve_writes:
  assumes "solve S W task dir = Inr dir'"
  shows "dir' (question_id task)
           = Some (collect_paths S (path_envs W) (root_node_of task) [0..<nat (num_paths S)] [])"
  using assms by (auto simp: solve_def split: sum.splits)

text \<open>
  Claim C10. When \<^verbatim>\<open>solve\<close> returns normally the task's artifact exists in the
  resulting directory, and it is the empty list when no attempt returned a path with a
  terminal last node. The runner then never selects that task again, whatever the task
  list and subset, and a later run leaves its artifact as it is.
\<close>

theorem solve_writes_artifact_always:
  assumes "solve S W task dir = Inr dir'"
  shows "(\<exists>paths. dir' (question_id task) = Some paths)
       \<and> ((\<forall>i < nat (num_paths S). \<forall>path.
              generate_one_path S (path_envs W i) (root_node_of task) = Inr path \<longrightarrow>
              \<not> is_terminal (last path)) \<longrightarrow>
            dir' (question_id task) = Some [])
       \<and> (\<forall>subset_ids tasks W'. (task, W') \<notin> set (tasks_to_solve subset_ids tasks dir'))
       \<and> (\<forall>S' subset_ids tasks.
             run_all_tasks S' subset_ids tasks dir' (question_id task) = dir' (question_id task))"
proof -
  let ?paths = "collect_paths S (path_envs W) (root_node_of task) [0..<nat (num_paths S)] []"
  have w: "dir' (question_id task) = Some ?paths"
    using solve_writes [OF assms] .
  have none: "?paths = []"
    if "\<forall>i < nat (num_paths S). \<forall>path.
              generate_one_path S (path_envs W i) (root_node_of task) = Inr path \<longrightarrow>
              \<not> is_terminal (last path)"
    using that by (auto simp: collect_paths_eq split: sum.splits)
  have skip: "(task, W') \<notin> set (tasks_to_solve subset_ids tasks dir')" for subset_ids tasks W'
    using w tasks_to_solve_pending [of "(task, W')" subset_ids tasks dir'] by auto
  have keep: "run_all_tasks S' subset_ids tasks dir' (question_id task) = dir' (question_id task)"
    for S' subset_ids tasks
    using w run_all_tasks_keeps by simp
  from w none skip keep show ?thesis by simp
qed

theorem solve_writes_artifact_always_witness:
  "solve (example_solver 2) (example_task_env\<lparr>path_envs := (\<lambda>i. example_envs 0)\<rparr>)
       (example_task 7) Map.empty = Inr [7 \<mapsto> []]
   \<and> tasks_to_solve None
       [(example_task 7, example_task_env\<lparr>path_envs := (\<lambda>i. example_envs 0)\<rparr>)]
       [7 \<mapsto> []] = []"
proof -
  have s: "solve (example_solver 2) (example_task_env\<lparr>path_envs := (\<lambda>i. example_envs 0)\<rparr>)
       (example_task 7) Map.empty = Inr [7 \<mapsto> []]"
    using example_generate_0
    by (simp add: solve_def example_task_env_def example_task_def example_root_def [symmetric]
        upt_3 example_solver_def attempt_path_def)
  show ?thesis
    using solve_writes_artifact_always [OF s] s
    by (simp add: tasks_to_solve_def example_task_def)
qed

section \<open>Self-consistency selection\<close>

lemma sorted_last_max:
  "sorted (map f ys) \<Longrightarrow> y \<in> set ys \<Longrightarrow> f y \<le> f (last ys)"
  by (induction ys) (auto split: if_splits)

lemma py_sort_reverse_first:
  assumes "es \<noteq> []"
  shows "\<exists>b. py_first (py_sort_reverse f es) = Inr b \<and> b \<in> set es \<and> (\<forall>e\<in>set es. f e \<le> f b)"
proof -
  let ?ys = "sort_key f (rev es)"
  have ne: "?ys \<noteq> []" using assms by (metis length_0_conv length_rev length_sort)
  have set: "set ?ys = set es" by simp
  have "py_first (py_sort_reverse f es) = Inr (last ?ys)"
    using ne by (cases "rev ?ys") (auto simp: py_first_def py_sort_reverse_def last_rev [symmetric] hd_rev)
  moreover have "last ?ys \<in> set es" using ne set last_in_set by blast
  moreover have "\<forall>e\<in>set es. f e \<le> f (last ?ys)"
    using sorted_last_max [of f ?ys] set by (simp add: sorted_sort_key)
  ultimately show ?thesis by blast
qed

lemma sort_key_of_le:
  "sort_key_of e \<le> sort_key_of b \<longleftrightarrow>
     fst (snd e) < fst (snd b) \<or> (fst (snd e) = fst (snd b) \<and> snd (snd b) \<le> snd (snd e))"
  by (auto simp: sort_key_of_def less_eq_prod_def)

lemma group_append_nonempty: "group_append key idx groups \<noteq> []"
  by (cases groups) (auto split: if_splits)

lemma groups_below_mono: "groups_below n groups \<Longrightarrow> n \<le> m \<Longrightarrow> groups_below m groups"
  by (fastforce simp: groups_below_def)

lemma groups_below_append:
  "groups_below n groups \<Longrightarrow> groups_below (Suc n) (group_append key n groups)"
proof (induction groups)
  case Nil
  then show ?case by (simp add: groups_below_def)
next
  case (Cons g groups)
  obtain k l where g: "g = (k, l)" by (cases g)
  from Cons.prems have tl: "groups_below n groups" by (simp add: groups_below_def)
  show ?case
  proof (cases "k = key")
    case True
    with Cons.prems g show ?thesis
      by (auto simp: groups_below_def sorted_append less_Suc_eq dest: less_imp_le)
  next
    case False
    with Cons.IH [OF tl] Cons.prems g show ?thesis
      by (auto simp: groups_below_def less_Suc_eq)
  qed
qed

lemma build_groups_below:
  "build_groups oracle db_path idx rest (g, gi) = Inr (g', gi') \<Longrightarrow>
   groups_below idx g \<Longrightarrow> groups_below idx gi \<Longrightarrow>
   groups_below (idx + length rest) g' \<and> groups_below (idx + length rest) gi'
   \<and> (\<forall>p \<in> set rest. p \<noteq> [])"
proof (induction rest arbitrary: idx g gi)
  case Nil
  then show ?case by simp
next
  case (Cons result rest)
  from Cons.prems(1) have ne: "result \<noteq> []"
    by (cases result) auto
  let ?answer = "cached_execute_sql_with_timeout oracle db_path (final_sql_query (last result))"
  show ?case
  proof (cases ?answer)
    case (Success rows)
    let ?g1 = "if is_valid_execution_result oracle ?answer
                 then group_append (set rows) idx g else g"
    let ?gi1 = "group_append (set rows) idx gi"
    from Cons.prems(1) ne Success
    have rec: "build_groups oracle db_path (Suc idx) rest (?g1, ?gi1) = Inr (g', gi')"
      by (cases result) (auto simp: Let_def)
    have "groups_below (Suc idx) ?g1"
      using Cons.prems(2) groups_below_append groups_below_mono [of idx g "Suc idx"] by auto
    moreover have "groups_below (Suc idx) ?gi1"
      using Cons.prems(3) groups_below_append by auto
    ultimately show ?thesis
      using Cons.IH [OF rec] ne by simp
  next
    case (Failure msg)
    from Cons.prems(1) ne Failure
    have rec: "build_groups oracle db_path (Suc idx) rest (g, gi) = Inr (g', gi')"
      by (cases result) (auto simp: Let_def)
    have "groups_below (Suc idx) g" "groups_below (Suc idx) gi"
      using Cons.prems(2,3) groups_below_mono [of idx _ "Suc idx"] by auto
    then show ?thesis
      using Cons.IH [OF rec] ne by simp
  qed
qed

lemma build_groups_first_seen:
  assumes "build_groups oracle db_path 0 results ([], []) = Inr (g', gi')"
  shows "first_seen_groups results g' \<and> first_seen_groups results gi'
         \<and> (\<forall>p \<in> set results. p \<noteq> [])"
proof -
  have b: "groups_below (length results) g' \<and> groups_below (length results) gi'
           \<and> (\<forall>p \<in> set results. p \<noteq> [])"
    using build_groups_below [OF assms] by (simp add: groups_below_def)
  then have ne: "\<And>i. i < length results \<Longrightarrow> results ! i \<noteq> []"
    using nth_mem by blast
  have "first_seen_groups results G" if "groups_below (length results) G" for G :: "'a result_groups"
    using that ne by (auto simp: first_seen_groups_def groups_below_def list_all_iff)
  with b show ?thesis by blast
qed

lemma build_groups_all_fail:
  "\<forall>p \<in> set rest. p \<noteq> [] \<and>
      (\<exists>msg. cached_execute_sql_with_timeout oracle db_path (final_sql_query (last p)) = Failure msg)
   \<Longrightarrow> build_groups oracle db_path idx rest groups = Inr groups"
proof (induction rest arbitrary: idx)
  case Nil
  then show ?case by simp
next
  case (Cons result rest)
  obtain g gi where gs: "groups = (g, gi)" by (cases groups)
  from Cons.prems obtain msg where
    "result \<noteq> []"
    "cached_execute_sql_with_timeout oracle db_path (final_sql_query (last result)) = Failure msg"
    by auto
  then show ?case
    using Cons.IH [of "Suc idx"] Cons.prems gs by (cases result) auto
qed

lemma map_of_group_append:
  "map_of (group_append key idx groups) k =
     (if k = key then Some ((case map_of groups key of None \<Rightarrow> [] | Some l \<Rightarrow> l) @ [idx])
      else map_of groups k)"
proof (induction groups)
  case Nil
  show ?case by simp
next
  case (Cons g groups)
  obtain k' l where g: "g = (k', l)" by (cases g)
  show ?case
    using Cons.IH by (cases "k' = key"; cases "k = key"; cases "k = k'") (simp_all add: g)
qed

lemma fst_set_group_append:
  "fst ` set (group_append key idx groups) = insert key (fst ` set groups)"
proof (induction groups)
  case Nil
  show ?case by simp
next
  case (Cons g groups)
  obtain k' l where g: "g = (k', l)" by (cases g)
  show ?case
    using Cons.IH by (cases "k' = key") (simp_all add: g insert_commute)
qed

lemma distinct_group_append:
  "distinct (map fst groups) \<Longrightarrow> distinct (map fst (group_append key idx groups))"
proof (induction groups)
  case Nil
  then show ?case by simp
next
  case (Cons g groups)
  obtain k l where g: "g = (k, l)" by (cases g)
  show ?case
  proof (cases "k = key")
    case True
    with Cons.prems g show ?thesis by simp
  next
    case False
    have "k \<notin> fst ` set (group_append key idx groups)"
      using False Cons.prems g by (simp add: fst_set_group_append)
    with False Cons g show ?thesis by simp
  qed
qed

lemma groups_partition_append:
  assumes P: "groups_partition oracle db_path results v n groups"
    and new: "in_group oracle db_path results v n key"
  shows "groups_partition oracle db_path results v (Suc n) (group_append key n groups)"
proof -
  have other: "\<not> in_group oracle db_path results v n k" if "k \<noteq> key" for k
    using new that by (auto simp: in_group_def split: execution_result.splits)
  show ?thesis
    unfolding groups_partition_def
  proof (intro conjI allI)
    show "distinct (map fst (group_append key n groups))"
      using P by (simp add: groups_partition_def distinct_group_append)
    fix k
    from P have Pk: "case map_of groups k of
                  None \<Rightarrow> \<not> (\<exists>i < n. in_group oracle db_path results v i k)
                | Some path_indices \<Rightarrow>
                    (\<forall>i. i \<in> set path_indices \<longleftrightarrow>
                         i < n \<and> in_group oracle db_path results v i k)"
      by (simp add: groups_partition_def)
    show "case map_of (group_append key n groups) k of
                  None \<Rightarrow> \<not> (\<exists>i < Suc n. in_group oracle db_path results v i k)
                | Some path_indices \<Rightarrow>
                    (\<forall>i. i \<in> set path_indices \<longleftrightarrow>
                         i < Suc n \<and> in_group oracle db_path results v i k)"
    proof (cases "k = key")
      case True
      show ?thesis
      proof (cases "map_of groups key")
        case None
        with Pk new True show ?thesis
          by (auto simp: map_of_group_append less_Suc_eq)
      next
        case (Some l)
        with Pk new True show ?thesis
          by (auto simp: map_of_group_append less_Suc_eq)
      qed
    next
      case False
      show ?thesis
      proof (cases "map_of groups k")
        case None
        with Pk other [OF False] False show ?thesis
          by (auto simp: map_of_group_append less_Suc_eq)
      next
        case (Some l)
        with Pk other [OF False] False show ?thesis
          by (auto simp: map_of_group_append less_Suc_eq)
      qed
    qed
  qed
qed

lemma groups_partition_skip:
  assumes P: "groups_partition oracle db_path results v n groups"
    and none: "\<forall>key. \<not> in_group oracle db_path results v n key"
  shows "groups_partition oracle db_path results v (Suc n) groups"
  unfolding groups_partition_def
proof (intro conjI allI)
  show "distinct (map fst groups)"
    using P by (simp add: groups_partition_def)
  fix k
  from P have Pk: "case map_of groups k of
                None \<Rightarrow> \<not> (\<exists>i < n. in_group oracle db_path results v i k)
              | Some path_indices \<Rightarrow>
                  (\<forall>i. i \<in> set path_indices \<longleftrightarrow>
                       i < n \<and> in_group oracle db_path results v i k)"
    by (simp add: groups_partition_def)
  show "case map_of groups k of
                None \<Rightarrow> \<not> (\<exists>i < Suc n. in_group oracle db_path results v i k)
              | Some path_indices \<Rightarrow>
                  (\<forall>i. i \<in> set path_indices \<longleftrightarrow>
                       i < Suc n \<and> in_group oracle db_path results v i k)"
  proof (cases "map_of groups k")
    case None
    with Pk none show ?thesis by (auto simp: less_Suc_eq)
  next
    case (Some l)
    with Pk none show ?thesis by (auto simp: less_Suc_eq)
  qed
qed


lemma build_groups_partition:
  "build_groups oracle db_path idx rest (g, gi) = Inr (g', gi') \<Longrightarrow>
   drop idx results = rest \<Longrightarrow> idx \<le> length results \<Longrightarrow>
   groups_partition oracle db_path results True idx g \<Longrightarrow>
   groups_partition oracle db_path results False idx gi \<Longrightarrow>
   groups_partition oracle db_path results True (length results) g'
   \<and> groups_partition oracle db_path results False (length results) gi'"
proof (induction rest arbitrary: idx g gi)
  case Nil
  then have "idx = length results" by simp
  with Nil show ?case by simp
next
  case (Cons result rest)
  from Cons.prems(2) have lt: "idx < length results"
    by (metis drop_all list.distinct(1) not_le)
  with Cons.prems(2) have at: "results ! idx = result" and dr: "drop (Suc idx) results = rest"
    by (metis Cons_nth_drop_Suc list.inject)+
  from Cons.prems(1) have ne: "result \<noteq> []"
    by (cases result) auto
  let ?answer = "cached_execute_sql_with_timeout oracle db_path (final_sql_query (last result))"
  show ?case
  proof (cases ?answer)
    case (Success rows)
    let ?g1 = "if is_valid_execution_result oracle ?answer
                 then group_append (set rows) idx g else g"
    let ?gi1 = "group_append (set rows) idx gi"
    from Cons.prems(1) ne Success
    have rec: "build_groups oracle db_path (Suc idx) rest (?g1, ?gi1) = Inr (g', gi')"
      by (cases result) (auto simp: Let_def)
    have inv: "in_group oracle db_path results False idx (set rows)"
      using Success at by (simp add: in_group_def)
    have P2: "groups_partition oracle db_path results False (Suc idx) ?gi1"
      using groups_partition_append [OF Cons.prems(5) inv] .
    have P1: "groups_partition oracle db_path results True (Suc idx) ?g1"
    proof (cases "is_valid_execution_result oracle ?answer")
      case True
      then have "in_group oracle db_path results True idx (set rows)"
        using Success at by (simp add: in_group_def)
      from groups_partition_append [OF Cons.prems(4) this] True show ?thesis by simp
    next
      case False
      then have "\<forall>key. \<not> in_group oracle db_path results True idx key"
        using Success at by (simp add: in_group_def)
      from groups_partition_skip [OF Cons.prems(4) this] False show ?thesis by simp
    qed
    from Cons.IH [OF rec dr _ P1 P2] lt show ?thesis by simp
  next
    case (Failure msg)
    from Cons.prems(1) ne Failure
    have rec: "build_groups oracle db_path (Suc idx) rest (g, gi) = Inr (g', gi')"
      by (cases result) (auto simp: Let_def)
    have none: "\<forall>key. \<not> in_group oracle db_path results v idx key" for v
      using Failure at by (simp add: in_group_def)
    from Cons.IH [OF rec dr _ groups_partition_skip [OF Cons.prems(4) none]
        groups_partition_skip [OF Cons.prems(5) none]] lt
    show ?thesis by simp
  qed
qed

lemma build_groups_partitions:
  assumes "build_groups oracle db_path 0 results ([], []) = Inr (g', gi')"
  shows "groups_partition oracle db_path results True (length results) g'
       \<and> groups_partition oracle db_path results False (length results) gi'"
  using build_groups_partition [OF assms, of results]
  by (simp add: groups_partition_def)

lemma final_sql_of_ok:
  "i < length results \<Longrightarrow> results ! i \<noteq> [] \<Longrightarrow>
   final_sql_of results i = Inr (final_sql_query (last (results ! i)))"
  by (cases "results ! i") (simp_all add: final_sql_of_def)

lemma first_seen_groups_hd:
  assumes "first_seen_groups results groups" "g \<in> set groups"
  shows "snd g \<noteq> [] \<and> hd (snd g) < length results \<and> results ! hd (snd g) \<noteq> []
         \<and> (\<forall>i \<in> set (snd g). hd (snd g) \<le> i)"
proof -
  obtain key l where g: "g = (key, l)" by (cases g)
  from assms g have l: "l \<noteq> []" "sorted l" "\<forall>i \<in> set l. i < length results \<and> results ! i \<noteq> []"
    by (auto simp: first_seen_groups_def list_all_iff)
  then obtain x xs where "l = x # xs" by (cases l) auto
  with l g show ?thesis by auto
qed

lemma path_idx_with_sc_score_entries:
  assumes "\<forall>g \<in> set rest. snd g \<noteq> [] \<and> hd (snd g) < length results \<and> results ! hd (snd g) \<noteq> []"
    and "sum_list (map (\<lambda>v. length (snd v)) all_groups) \<noteq> 0"
  shows "path_idx_with_sc_score oracle db_path results all_groups k rest =
           Inr (map (entry_of oracle db_path results all_groups) (enumerate k rest))"
  using assms(1)
proof (induction rest arbitrary: k)
  case Nil
  then show ?case by simp
next
  case (Cons g rest)
  obtain key l where g: "g = (key, l)" by (cases g)
  from Cons.prems g obtain x xs where l: "l = x # xs" by (cases l) auto
  from Cons.prems g l have x: "x < length results" "results ! x \<noteq> []" by auto
  have rec: "path_idx_with_sc_score oracle db_path results all_groups (Suc k) rest =
           Inr (map (entry_of oracle db_path results all_groups) (enumerate (Suc k) rest))"
    using Cons.IH Cons.prems by simp
  show ?case
    using assms(2) x rec
    by (simp add: g l py_first_def final_sql_of_ok entry_of_def Let_def)
qed

lemma sum_lengths_pos:
  assumes "groups \<noteq> []" "\<forall>g \<in> set groups. snd g \<noteq> []"
  shows "sum_list (map (\<lambda>v. length (snd v)) groups) \<noteq> 0"
proof -
  from assms obtain g where "g \<in> set groups" "snd g \<noteq> []"
    by (cases groups) auto
  then show ?thesis by (auto simp: sum_list_eq_0_iff)
qed

lemma select_from_groups_ranked:
  assumes fs: "first_seen_groups results groups" and ne: "groups \<noteq> []"
  shows "\<exists>q. select_from_groups oracle db_path results groups = Inr q
            \<and> selected_by_consistency oracle db_path results groups q"
proof -
  let ?F = "entry_of oracle db_path results groups"
  let ?entries = "map ?F (enumerate 0 groups)"
  have wf: "\<forall>g \<in> set groups. snd g \<noteq> [] \<and> hd (snd g) < length results
              \<and> results ! hd (snd g) \<noteq> []"
    using first_seen_groups_hd [OF fs] by blast
  then have total: "sum_list (map (\<lambda>v. length (snd v)) groups) \<noteq> 0"
    using sum_lengths_pos [OF ne] by blast
  have entries: "path_idx_with_sc_score oracle db_path results groups 0 groups = Inr ?entries"
    using path_idx_with_sc_score_entries [OF wf total] .
  have "?entries \<noteq> []" using ne by (cases groups) simp_all
  from py_sort_reverse_first [OF this, of sort_key_of] obtain b where
    b: "py_first (py_sort_reverse sort_key_of ?entries) = Inr b" "b \<in> set ?entries"
       "\<forall>e \<in> set ?entries. sort_key_of e \<le> sort_key_of b"
    by blast
  from b(2) obtain j where j: "j < length groups" "b = ?F (j, groups ! j)"
    by (auto simp: in_set_enumerate_eq)
  have all: "sort_key_of (?F (i, groups ! i)) \<le> sort_key_of (?F (j, groups ! j))"
    if "i < length groups" for i
  proof -
    have "(i, groups ! i) \<in> set (enumerate 0 groups)"
      using that by (simp add: in_set_enumerate_eq)
    then have "?F (i, groups ! i) \<in> set ?entries" by force
    with b(3) j(2) show ?thesis by blast
  qed
  from j(1) wf have rep: "hd (snd (groups ! j)) < length results"
    "results ! hd (snd (groups ! j)) \<noteq> []"
    using nth_mem by blast+
  have sel: "select_from_groups oracle db_path results groups =
               Inr (final_sql_query (last (results ! hd (snd (groups ! j)))))"
    using entries b(1) j(2) rep
    by (simp add: select_from_groups_def final_sql_of_ok entry_of_def)
  have "selected_by_consistency oracle db_path results groups
          (final_sql_query (last (results ! hd (snd (groups ! j)))))"
    unfolding selected_by_consistency_def Let_def
    using j(1) all by (intro exI [of _ j]) (auto simp: sort_key_of_le entry_of_def)
  with sel show ?thesis by blast
qed

lemma select_final_sql_query_built:
  assumes b: "build_groups oracle (db_path_of db_root_dir (db_id (hd (hd results)))) 0 results
             ([], []) = Inr (g, gi)"
    and ne: "results \<noteq> []"
  shows "select_final_sql_query oracle qid (Some results) db_root_dir =
         (if g = [] then
            (if gi \<noteq> [] then
               (case select_from_groups oracle (db_path_of db_root_dir (db_id (hd (hd results))))
                       results gi of
                  Inl e \<Rightarrow> Inl e
                | Inr q \<Rightarrow> Inr \<lparr>item_question_id = qid, item_db_id = db_id (hd (hd results)),
                               sql = q\<rparr>)
             else Inr \<lparr>item_question_id = qid, item_db_id = db_id (hd (hd results)),
                       sql = ''ERROR''\<rparr>)
          else
            (case select_from_groups oracle (db_path_of db_root_dir (db_id (hd (hd results))))
                    results g of
               Inl e \<Rightarrow> Inl e
             | Inr q \<Rightarrow> Inr \<lparr>item_question_id = qid, item_db_id = db_id (hd (hd results)),
                            sql = q\<rparr>))"
proof -
  from ne obtain first_path others where r: "results = first_path # others"
    by (cases results) auto
  from build_groups_first_seen [OF b] r have "first_path \<noteq> []" by simp
  then obtain first_node nodes where f: "first_path = first_node # nodes"
    by (cases first_path) auto
  have h: "hd (hd results) = first_node" by (simp add: r f)
  show ?thesis
    using b unfolding h unfolding r f
    by (simp add: select_final_sql_query_def py_first_def Let_def split: sum.splits
        del: build_groups.simps)
qed

lemma path_idx_with_sc_score_groups:
  assumes fs: "first_seen_groups results groups" and ne: "groups \<noteq> []"
  shows "\<exists>entries. path_idx_with_sc_score oracle db_path results groups 0 groups = Inr entries
           \<and> length entries = length groups
           \<and> (\<forall>j < length groups. entries ! j =
                 (hd (snd (groups ! j)),
                  real (length (snd (groups ! j)))
                    / real (sum_list (map (\<lambda>v. length (snd v)) groups)),
                  measure_sql_execution_time oracle j db_path
                    (final_sql_query (last (results ! hd (snd (groups ! j)))))
                    EXECUTION_TIME_REPEAT))"
proof -
  have wf: "\<forall>g \<in> set groups. snd g \<noteq> [] \<and> hd (snd g) < length results
              \<and> results ! hd (snd g) \<noteq> []"
    using first_seen_groups_hd [OF fs] by blast
  then have total: "sum_list (map (\<lambda>v. length (snd v)) groups) \<noteq> 0"
    using sum_lengths_pos [OF ne] by blast
  have "path_idx_with_sc_score oracle db_path results groups 0 groups
          = Inr (map (entry_of oracle db_path results groups) (enumerate 0 groups))"
    using path_idx_with_sc_score_entries [OF wf total] .
  then show ?thesis
    by (simp add: nth_enumerate_eq entry_of_def)
qed

text \<open>
  Claim C1. When the primary partition that the selector builds is not empty, its
  lists are in first-seen order and partition the paths with a valid successful
  result by their set of rows; the entries computed for ranking give, for every
  group, the first index of its list as representative, the size of the group divided
  by the sum of the sizes of all primary groups as score, and the latency measured for
  the representative's final SQL; and the selector returns the final SQL of the
  representative of a group that ranks first by score descending, then latency
  ascending, with the database identifier of the first node of the first path.
\<close>

theorem select_final_sql_query_primary:
  assumes "build_groups oracle (db_path_of db_root_dir (db_id (hd (hd results)))) 0 results
             ([], []) = Inr (result_groups, result_groups_with_invalid_result)"
    and "result_groups \<noteq> []"
  shows "first_seen_groups results result_groups
       \<and> groups_partition oracle (db_path_of db_root_dir (db_id (hd (hd results)))) results
            True (length results) result_groups
       \<and> (\<exists>entries.
            path_idx_with_sc_score oracle (db_path_of db_root_dir (db_id (hd (hd results))))
              results result_groups 0 result_groups = Inr entries
            \<and> length entries = length result_groups
            \<and> (\<forall>j < length result_groups. entries ! j =
                 (hd (snd (result_groups ! j)),
                  real (length (snd (result_groups ! j)))
                    / real (sum_list (map (\<lambda>v. length (snd v)) result_groups)),
                  measure_sql_execution_time oracle j
                    (db_path_of db_root_dir (db_id (hd (hd results))))
                    (final_sql_query (last (results ! hd (snd (result_groups ! j)))))
                    EXECUTION_TIME_REPEAT)))
       \<and> (\<exists>q. select_final_sql_query oracle qid (Some results) db_root_dir
                 = Inr \<lparr>item_question_id = qid, item_db_id = db_id (hd (hd results)), sql = q\<rparr>
              \<and> selected_by_consistency oracle
                   (db_path_of db_root_dir (db_id (hd (hd results)))) results result_groups q)"
proof -
  have ne: "results \<noteq> []"
    using assms by (cases results) auto
  have fs: "first_seen_groups results result_groups"
    using build_groups_first_seen [OF assms(1)] by simp
  from select_from_groups_ranked [OF fs assms(2)] obtain q where
    q: "select_from_groups oracle (db_path_of db_root_dir (db_id (hd (hd results)))) results
          result_groups = Inr q"
       "selected_by_consistency oracle (db_path_of db_root_dir (db_id (hd (hd results))))
          results result_groups q"
    by blast
  from select_final_sql_query_built [OF assms(1) ne, of qid] assms(2) q(1)
  have "select_final_sql_query oracle qid (Some results) db_root_dir
          = Inr \<lparr>item_question_id = qid, item_db_id = db_id (hd (hd results)), sql = q\<rparr>"
    by simp
  with fs q(2) path_idx_with_sc_score_groups [OF fs assms(2)]
    build_groups_partitions [OF assms(1)]
  show ?thesis by blast
qed

lemma example_build:
  "build_groups example_oracle (db_path_of ''dbs'' ''financial'') 0
     [example_result ''SELECT 1 + 0'', example_result ''SELECT 2'', example_result ''SELECT 1'']
     ([], [])
   = Inr ([({[1]}, [0, 2]), ({[2]}, [1])], [({[1]}, [0, 2]), ({[2]}, [1])])"
  by (simp add: example_oracle_def example_result_def)

lemma example_db_id:
  "db_id (hd (hd (example_result s # rest))) = ''financial''"
  by (simp add: example_result_def example_root_def root_node_of_def)

lemmas example_select_defs =
  select_from_groups_def py_first_def py_sort_reverse_def sort_key_of_def final_sql_of_def
  EXECUTION_TIME_REPEAT_def example_oracle_def example_result_def less_eq_prod_def
  example_root_def root_node_of_def

theorem select_final_sql_query_primary_witness:
  "select_final_sql_query example_oracle 7
     (Some [example_result ''SELECT 1 + 0'', example_result ''SELECT 2'',
            example_result ''SELECT 1'']) ''dbs''
   = Inr \<lparr>item_question_id = 7, item_db_id = ''financial'', sql = ''SELECT 1 + 0''\<rparr>
   \<and> first_seen_groups
       [example_result ''SELECT 1 + 0'', example_result ''SELECT 2'', example_result ''SELECT 1'']
       [({[1::nat]}, [0, 2]), ({[2]}, [1])]"
proof -
  let ?results = "[example_result ''SELECT 1 + 0'', example_result ''SELECT 2'',
                   example_result ''SELECT 1'']"
  have b: "build_groups example_oracle (db_path_of ''dbs'' (db_id (hd (hd ?results)))) 0 ?results
             ([], [])
           = Inr ([({[1]}, [0, 2]), ({[2]}, [1])], [({[1]}, [0, 2]), ({[2]}, [1])])"
    using example_build by (simp only: example_db_id)
  have s: "select_final_sql_query example_oracle 7 (Some ?results) ''dbs''
           = Inr \<lparr>item_question_id = 7, item_db_id = ''financial'', sql = ''SELECT 1 + 0''\<rparr>"
    by (simp add: select_final_sql_query_built [OF b] example_db_id)
       (simp add: example_select_defs)
  from select_final_sql_query_primary [OF b, of 7] s show ?thesis
    by simp
qed

text \<open>
  Claim C5. When the primary partition is not empty the result is computed from it
  alone; when it is empty and the invalid-inclusive partition is not, the latter
  partitions the paths with a successful result by their set of rows, the same rule
  (first-seen representative, score descending, latency ascending) is applied to it
  and the final SQL of that representative is returned.
\<close>

theorem select_final_sql_query_fallback:
  assumes "build_groups oracle (db_path_of db_root_dir (db_id (hd (hd results)))) 0 results
             ([], []) = Inr (result_groups, result_groups_with_invalid_result)"
  shows "(result_groups \<noteq> [] \<longrightarrow>
            select_final_sql_query oracle qid (Some results) db_root_dir =
              (case select_from_groups oracle (db_path_of db_root_dir (db_id (hd (hd results))))
                      results result_groups of
                 Inl e \<Rightarrow> Inl e
               | Inr q \<Rightarrow> Inr \<lparr>item_question_id = qid, item_db_id = db_id (hd (hd results)),
                              sql = q\<rparr>))
       \<and> (result_groups = [] \<and> result_groups_with_invalid_result \<noteq> [] \<longrightarrow>
            first_seen_groups results result_groups_with_invalid_result
            \<and> groups_partition oracle (db_path_of db_root_dir (db_id (hd (hd results))))
                 results False (length results) result_groups_with_invalid_result
            \<and> (\<exists>q. select_final_sql_query oracle qid (Some results) db_root_dir
                      = Inr \<lparr>item_question_id = qid, item_db_id = db_id (hd (hd results)),
                             sql = q\<rparr>
                   \<and> selected_by_consistency oracle
                        (db_path_of db_root_dir (db_id (hd (hd results)))) results
                        result_groups_with_invalid_result q))"
proof (intro conjI impI)
  assume p: "result_groups \<noteq> []"
  then have ne: "results \<noteq> []"
    using assms by (cases results) auto
  from select_final_sql_query_built [OF assms ne, of qid] p
  show "select_final_sql_query oracle qid (Some results) db_root_dir =
              (case select_from_groups oracle (db_path_of db_root_dir (db_id (hd (hd results))))
                      results result_groups of
                 Inl e \<Rightarrow> Inl e
               | Inr q \<Rightarrow> Inr \<lparr>item_question_id = qid, item_db_id = db_id (hd (hd results)),
                              sql = q\<rparr>)"
    by simp
next
  assume f: "result_groups = [] \<and> result_groups_with_invalid_result \<noteq> []"
  then have ne: "results \<noteq> []"
    using assms by (cases results) auto
  show fs: "first_seen_groups results result_groups_with_invalid_result"
    using build_groups_first_seen [OF assms] by simp
  show "groups_partition oracle (db_path_of db_root_dir (db_id (hd (hd results))))
          results False (length results) result_groups_with_invalid_result"
    using build_groups_partitions [OF assms] by simp
  from f have gi: "result_groups_with_invalid_result \<noteq> []" by simp
  from select_from_groups_ranked [OF fs gi] obtain q where
    q: "select_from_groups oracle (db_path_of db_root_dir (db_id (hd (hd results)))) results
          result_groups_with_invalid_result = Inr q"
       "selected_by_consistency oracle (db_path_of db_root_dir (db_id (hd (hd results))))
          results result_groups_with_invalid_result q"
    by blast
  from select_final_sql_query_built [OF assms ne, of qid] f q(1)
  have "select_final_sql_query oracle qid (Some results) db_root_dir
          = Inr \<lparr>item_question_id = qid, item_db_id = db_id (hd (hd results)), sql = q\<rparr>"
    by simp
  with q(2) show "\<exists>q. select_final_sql_query oracle qid (Some results) db_root_dir
                      = Inr \<lparr>item_question_id = qid, item_db_id = db_id (hd (hd results)),
                             sql = q\<rparr>
                   \<and> selected_by_consistency oracle
                        (db_path_of db_root_dir (db_id (hd (hd results)))) results
                        result_groups_with_invalid_result q"
    by blast
qed

theorem select_final_sql_query_fallback_witness:
  "select_final_sql_query example_oracle 7
     (Some [example_result ''SELEC 1'', example_result ''SELECT 3 WHERE 0'']) ''dbs''
   = Inr \<lparr>item_question_id = 7, item_db_id = ''financial'', sql = ''SELECT 3 WHERE 0''\<rparr>
   \<and> first_seen_groups
       [example_result ''SELEC 1'', example_result ''SELECT 3 WHERE 0''] [({} :: nat list set, [1])]"
proof -
  let ?results = "[example_result ''SELEC 1'', example_result ''SELECT 3 WHERE 0'']"
  have b: "build_groups example_oracle (db_path_of ''dbs'' (db_id (hd (hd ?results)))) 0 ?results
             ([], [])
           = Inr ([], [({}, [1])])"
    by (simp add: example_oracle_def example_result_def)
  have s: "select_final_sql_query example_oracle 7 (Some ?results) ''dbs''
           = Inr \<lparr>item_question_id = 7, item_db_id = ''financial'', sql = ''SELECT 3 WHERE 0''\<rparr>"
    by (simp add: select_final_sql_query_built [OF b] example_db_id)
       (simp add: example_select_defs)
  from select_final_sql_query_fallback [OF b, of 7] s show ?thesis
    by simp
qed

text \<open>
  Claim C4, as the code has it. When no paths were persisted (the artifact holds
  \<^verbatim>\<open>None\<close> or an empty list) the selector returns the marker \<^verbatim>\<open>ERROR\<close> with the
  default database identifier \<^verbatim>\<open>financial\<close>. When paths were persisted and none
  executed successfully, both partitions are empty and the selector returns the marker
  with the task's own database identifier, that of the first node of the first path.
\<close>

theorem select_final_sql_query_error_marker:
  "select_final_sql_query oracle qid None db_root_dir
     = Inr \<lparr>item_question_id = qid, item_db_id = ''financial'', sql = ''ERROR''\<rparr>
   \<and> select_final_sql_query oracle qid (Some []) db_root_dir
     = Inr \<lparr>item_question_id = qid, item_db_id = ''financial'', sql = ''ERROR''\<rparr>
   \<and> (results \<noteq> []
        \<and> (\<forall>path \<in> set results. path \<noteq> []
              \<and> (\<exists>msg. cached_execute_sql_with_timeout oracle
                          (db_path_of db_root_dir (db_id (hd (hd results))))
                          (final_sql_query (last path)) = Failure msg)) \<longrightarrow>
        build_groups oracle (db_path_of db_root_dir (db_id (hd (hd results)))) 0 results ([], [])
          = Inr ([], [])
        \<and> select_final_sql_query oracle qid (Some results) db_root_dir
          = Inr \<lparr>item_question_id = qid, item_db_id = db_id (hd (hd results)),
                 sql = ''ERROR''\<rparr>)
   \<and> (build_groups oracle (db_path_of db_root_dir (db_id (hd (hd results)))) 0 results ([], [])
          = Inr ([], []) \<and> results \<noteq> [] \<longrightarrow>
        select_final_sql_query oracle qid (Some results) db_root_dir
          = Inr \<lparr>item_question_id = qid, item_db_id = db_id (hd (hd results)),
                 sql = ''ERROR''\<rparr>)"
proof (intro conjI impI)
  show "select_final_sql_query oracle qid None db_root_dir
     = Inr \<lparr>item_question_id = qid, item_db_id = ''financial'', sql = ''ERROR''\<rparr>"
    by (simp add: select_final_sql_query_def)
  show "select_final_sql_query oracle qid (Some []) db_root_dir
     = Inr \<lparr>item_question_id = qid, item_db_id = ''financial'', sql = ''ERROR''\<rparr>"
    by (simp add: select_final_sql_query_def)
next
  assume a: "results \<noteq> []
        \<and> (\<forall>path \<in> set results. path \<noteq> []
              \<and> (\<exists>msg. cached_execute_sql_with_timeout oracle
                          (db_path_of db_root_dir (db_id (hd (hd results))))
                          (final_sql_query (last path)) = Failure msg))"
  then show b: "build_groups oracle (db_path_of db_root_dir (db_id (hd (hd results)))) 0 results
              ([], []) = Inr ([], [])"
    using build_groups_all_fail by blast
  from a select_final_sql_query_built [OF b, of qid]
  show "select_final_sql_query oracle qid (Some results) db_root_dir
          = Inr \<lparr>item_question_id = qid, item_db_id = db_id (hd (hd results)),
                 sql = ''ERROR''\<rparr>"
    by simp
next
  assume a: "build_groups oracle (db_path_of db_root_dir (db_id (hd (hd results)))) 0 results
               ([], []) = Inr ([], []) \<and> results \<noteq> []"
  then have b: "build_groups oracle (db_path_of db_root_dir (db_id (hd (hd results)))) 0 results
              ([], []) = Inr ([], [])" and ne: "results \<noteq> []" by simp_all
  from select_final_sql_query_built [OF b ne, of qid]
  show "select_final_sql_query oracle qid (Some results) db_root_dir
          = Inr \<lparr>item_question_id = qid, item_db_id = db_id (hd (hd results)),
                 sql = ''ERROR''\<rparr>"
    by simp
qed

theorem select_final_sql_query_error_marker_witness:
  "select_final_sql_query example_oracle 7 (Some [california_result]) ''dbs''
     = Inr \<lparr>item_question_id = 7, item_db_id = ''california_schools'', sql = ''ERROR''\<rparr>
   \<and> select_final_sql_query example_oracle 7 None ''dbs''
     = Inr \<lparr>item_question_id = 7, item_db_id = ''financial'', sql = ''ERROR''\<rparr>"
  using select_final_sql_query_error_marker [of example_oracle 7 "''dbs''" "[california_result]"]
  by (simp add: california_result_def example_oracle_def)

text \<open>
  With one persisted path of a task on the database \<^verbatim>\<open>california_schools\<close> whose SQL
  fails, both partitions are empty and the identifier returned with the marker is
  \<^verbatim>\<open>california_schools\<close>, not the default.
\<close>

theorem select_final_sql_query_error_not_default_db:
  "build_groups example_oracle (db_path_of ''dbs'' ''california_schools'') 0 [california_result]
     ([], []) = Inr ([], [])
   \<and> select_final_sql_query example_oracle 7 (Some [california_result]) ''dbs''
     = Inr \<lparr>item_question_id = 7, item_db_id = ''california_schools'', sql = ''ERROR''\<rparr>
   \<and> select_final_sql_query example_oracle 7 (Some [california_result]) ''dbs''
     \<noteq> Inr \<lparr>item_question_id = 7, item_db_id = ''financial'', sql = ''ERROR''\<rparr>"
  by (simp add: select_final_sql_query_def py_first_def california_result_def example_oracle_def)

end
